theory Spec2Isabelle
  imports Main "HOL-Library.Word" "HOL-Library.Signed_Division" "HOL-Library.Multiset"
begin

section \<open>Data model (model/span.go)\<close>

text \<open>
  Go's \<^verbatim>\<open>int64\<close>, \<^verbatim>\<open>uint64\<close> and \<^verbatim>\<open>int32\<close> are machine words: \<open>+\<close> and \<open>-\<close> wrap
  around, \<open>sint\<close> reads a signed value, \<open>\<le>s\<close> and \<open><s\<close> compare signed values.
  \<^verbatim>\<open>float64\<close> values are never inspected by the code modelled here and stay abstract.
\<close>

type_synonym int64 = "64 word"
type_synonym uint64 = "64 word"
type_synonym int32 = "32 word"

typedecl float64

record Span =
  Service :: string
  Name :: string
  Resource :: string
  TraceID :: uint64
  SpanID :: uint64
  Start :: int64
  Duration :: int64
  Error :: int32
  Meta :: "string \<rightharpoonup> string"
  Metrics :: "string \<rightharpoonup> float64"
  ParentID :: uint64
  Type :: string

type_synonym Trace = "Span list"

text \<open>\<^verbatim>\<open>func (s *Span) End() int64 { return s.Start + s.Duration }\<close>\<close>

definition End :: "Span \<Rightarrow> int64" where
  "End s = Start s + Duration s"

text \<open>
  Run-time panics of the code modelled: the integer division by zero of Go's \<^verbatim>\<open>%\<close>, an
  index out of range, and the \<^verbatim>\<open>panic("NO")\<close> of the receiver's index removal loop.
\<close>

datatype panic = IntegerDivideByZero | IndexOutOfRange | PanicNO

text \<open>
  Go's \<^verbatim>\<open>%\<close> on \<^verbatim>\<open>int64\<close> for a non-zero divisor: the remainder of the division
  truncated towards zero (it has the sign of the dividend).
\<close>

definition rem64 :: "int64 \<Rightarrow> int64 \<Rightarrow> int64" where
  "rem64 a b = word_of_int (sint a smod sint b)"

section \<open>Concentrator (agent/concentrator.go and \<^verbatim>\<open>processedTrace\<close> of unnamed/part_001)\<close>

text \<open>
  \<^verbatim>\<open>processedTrace\<close> of the agent. \<open>Root\<close> is a pointer (\<open>None\<close> is \<^verbatim>\<open>nil\<close>),
  \<open>Sublayers\<close> a slice that may be \<^verbatim>\<open>nil\<close> (\<open>None\<close>); the sublayer values are
  opaque to the agent (\<open>'sl\<close>).
\<close>

record 'sl processedTrace =
  Trace :: Trace
  Root :: "Span option"
  Env :: string
  Sublayers :: "'sl list option"

text \<open>
  The concentrator's fields, without the mutex. \<^verbatim>\<open>model.StatsBucket\<close> is the type \<open>'b\<close>;
  \<open>buckets\<close> is the Go map from bucket timestamps to buckets.
\<close>

record 'b Concentrator =
  aggregators :: "string list"
  bsize :: int64
  buckets :: "int64 \<rightharpoonup> 'b"

text \<open>
  The bucket timestamp of a span, \<^verbatim>\<open>btime := s.End() - s.End()%c.bsize\<close>, for a
  non-zero bucket size \<open>bs\<close>.
\<close>

definition btime :: "int64 \<Rightarrow> Span \<Rightarrow> int64" where
  "btime bs s = End s - rem64 (End s) bs"

text \<open>
  The sublayers handed to \<^verbatim>\<open>HandleSpan\<close> with span \<open>s\<close>: those of the trace when
  \<^verbatim>\<open>t.Root != nil && s.SpanID == t.Root.SpanID && t.Sublayers != nil\<close>, and \<^verbatim>\<open>nil\<close>
  otherwise.
\<close>

definition span_sublayers :: "'sl processedTrace \<Rightarrow> Span \<Rightarrow> 'sl list option" where
  "span_sublayers t s =
     (case Root t of
        None \<Rightarrow> None
      | Some root \<Rightarrow> if SpanID s = SpanID root then Sublayers t else None)"

text \<open>
  Modelled from the spec: \<^verbatim>\<open>model.NewStatsBucket\<close> and \<^verbatim>\<open>StatsBucket.HandleSpan\<close> are
  not among the sources at hand and are the parameters \<open>New\<close> and \<open>Handle\<close>. The spec
  says that Add fetches or creates \<^verbatim>\<open>buckets[bucket_start]\<close> and that \<^verbatim>\<open>handle\<close> updates
  the hits, errors and durations of that bucket: the bucket stored under \<open>btime\<close>
  afterwards is the one \<open>Handle\<close> returns.

  The rest is the source: one iteration of the loop of \<^verbatim>\<open>Concentrator.Add\<close> on span \<open>s\<close>
  of trace \<open>t\<close>. With a bucket size of zero Go's \<^verbatim>\<open>%\<close> panics.
\<close>

definition add_span ::
  "(int64 \<Rightarrow> int64 \<Rightarrow> 'b) \<Rightarrow> ('b \<Rightarrow> Span \<Rightarrow> string \<Rightarrow> string list \<Rightarrow> 'sl list option \<Rightarrow> 'b) \<Rightarrow>
   'sl processedTrace \<Rightarrow> 'b Concentrator \<Rightarrow> Span \<Rightarrow> panic + 'b Concentrator" where
  "add_span New Handle t c s =
     (if bsize c = 0 then Inl IntegerDivideByZero
      else
        let ts = btime (bsize c) s;
            b = (case buckets c ts of None \<Rightarrow> New ts (bsize c) | Some b \<Rightarrow> b)
        in Inr (c\<lparr>buckets :=
                   (buckets c)(ts \<mapsto> Handle b s (Env t) (aggregators c) (span_sublayers t s))\<rparr>))"

fun add_loop ::
  "(int64 \<Rightarrow> int64 \<Rightarrow> 'b) \<Rightarrow> ('b \<Rightarrow> Span \<Rightarrow> string \<Rightarrow> string list \<Rightarrow> 'sl list option \<Rightarrow> 'b) \<Rightarrow>
   'sl processedTrace \<Rightarrow> 'b Concentrator \<Rightarrow> Span list \<Rightarrow> panic + 'b Concentrator" where
  "add_loop New Handle t c [] = Inr c"
| "add_loop New Handle t c (s # ss) =
     (case add_span New Handle t c s of
        Inl p \<Rightarrow> Inl p
      | Inr c' \<Rightarrow> add_loop New Handle t c' ss)"

definition Concentrator_Add ::
  "(int64 \<Rightarrow> int64 \<Rightarrow> 'b) \<Rightarrow> ('b \<Rightarrow> Span \<Rightarrow> string \<Rightarrow> string list \<Rightarrow> 'sl list option \<Rightarrow> 'b) \<Rightarrow>
   'b Concentrator \<Rightarrow> 'sl processedTrace \<Rightarrow> panic + 'b Concentrator" where
  "Concentrator_Add New Handle c t = add_loop New Handle t c (Trace t)"

text \<open>
  \<^verbatim>\<open>Concentrator.Flush\<close>. \<open>now\<close> is the value of \<^verbatim>\<open>model.Now()\<close>. Go visits the keys of a
  map in an order the language leaves open: \<open>order\<close> is the order of that visit. A key
  that is no longer in the map when its turn comes is not produced by \<^verbatim>\<open>range\<close>. The
  statsd histogram and the log line of a flushed bucket change nothing modelled here.
\<close>

fun flush_loop ::
  "int64 \<Rightarrow> int64 \<Rightarrow> (int64 \<rightharpoonup> 'b) \<Rightarrow> 'b list \<Rightarrow> int64 list \<Rightarrow> 'b list \<times> (int64 \<rightharpoonup> 'b)" where
  "flush_loop now bs m sb [] = (sb, m)"
| "flush_loop now bs m sb (ts # order) =
     (case m ts of
        None \<Rightarrow> flush_loop now bs m sb order
      | Some bucket \<Rightarrow>
          if now - bs <s ts then flush_loop now bs m sb order
          else flush_loop now bs (m(ts := None)) (sb @ [bucket]) order)"

definition Concentrator_Flush ::
  "int64 \<Rightarrow> int64 list \<Rightarrow> 'b Concentrator \<Rightarrow> 'b list \<times> 'b Concentrator" where
  "Concentrator_Flush now order c =
     (case flush_loop now (bsize c) (buckets c) [] order of
        (sb, m) \<Rightarrow> (sb, c\<lparr>buckets := m\<rparr>))"

text \<open>
  The property the bucket timestamps are computed for: every key of the bucket map is an
  integer multiple of the bucket size.
\<close>

definition aligned :: "'b Concentrator \<Rightarrow> bool" where
  "aligned c = (\<forall>k \<in> dom (buckets c). sint (bsize c) dvd sint k)"

section \<open>Receiver (agent/concentrator.go, second part)\<close>

subsection \<open>Requests and responses\<close>

text \<open>
  What \<^verbatim>\<open>handleTraces\<close> reads of the request: \<^verbatim>\<open>r.Body\<close> (\<open>None\<close> is \<^verbatim>\<open>nil\<close>), with the
  outcome of \<^verbatim>\<open>ioutil.ReadAll(r.Body)\<close>, and the \<^verbatim>\<open>Content-Type\<close> header.
\<close>

datatype read_result = ReadError | ReadAll string

record Request =
  Body :: "read_result option"
  ContentType :: string

text \<open>
  \<^verbatim>\<open>http.ResponseWriter\<close>: the status line is written once, by the first
  \<^verbatim>\<open>WriteHeader\<close> or, with status 200, by the first \<^verbatim>\<open>Write\<close>; later calls of
  \<^verbatim>\<open>WriteHeader\<close> are ignored. \<^verbatim>\<open>http.Error\<close> writes the status and the message followed
  by a newline.
\<close>

record ResponseWriter =
  status :: "nat option"
  written :: string

definition new_writer :: ResponseWriter where
  "new_writer = \<lparr>status = None, written = []\<rparr>"

definition WriteHeader :: "nat \<Rightarrow> ResponseWriter \<Rightarrow> ResponseWriter" where
  "WriteHeader code w = (if status w = None then w\<lparr>status := Some code\<rparr> else w)"

definition Write :: "string \<Rightarrow> ResponseWriter \<Rightarrow> ResponseWriter" where
  "Write bytes w = (let w' = WriteHeader 200 w in w'\<lparr>written := written w' @ bytes\<rparr>)"

text \<open>
  \<^verbatim>\<open>HTTPErrorAndLog\<close> logs, counts the error in statsd and calls
  \<^verbatim>\<open>http.Error(w, errClient, code)\<close>; \<^verbatim>\<open>HTTPOK\<close> writes status 200 and \<^verbatim>\<open>"OK\n"\<close>.
\<close>

definition HTTPErrorAndLog :: "ResponseWriter \<Rightarrow> nat \<Rightarrow> string \<Rightarrow> ResponseWriter" where
  "HTTPErrorAndLog w code errClient = Write (errClient @ ''\<newline>'') (WriteHeader code w)"

definition HTTPOK :: "ResponseWriter \<Rightarrow> ResponseWriter" where
  "HTTPOK w = Write ''OK\<newline>'' (WriteHeader 200 w)"

subsection \<open>Decoding\<close>

text \<open>\<^verbatim>\<open>type APIVersion int\<close> with the constants \<^verbatim>\<open>v01\<close>, \<^verbatim>\<open>v02\<close>, \<^verbatim>\<open>v03\<close> (\<^verbatim>\<open>iota\<close>).\<close>

type_synonym APIVersion = int

definition v01 :: APIVersion where
  "v01 = 0"

definition v02 :: APIVersion where
  "v02 = 1"

definition v03 :: APIVersion where
  "v03 = 2"

text \<open>
  Modelled from the spec: \<^verbatim>\<open>Span.Normalize\<close> is not among the sources at hand. The spec
  gives it the contract \<^verbatim>\<open>normalize(span) -> ok | drop_reason\<close> with rules that fix the
  span or reject it; the handler calls it on \<^verbatim>\<open>t[i]\<close> in place. \<open>Normalize s\<close> is the span as
  the call leaves it, with the error returned (\<open>None\<close> is \<^verbatim>\<open>nil\<close>).

  The other fields are the decoders the handler calls: the JSON decoder of
  \<^verbatim>\<open>encoding/json\<close> on a list of spans and on a list of traces, and the msgpack decoder
  on a list of traces (\<open>None\<close> is a decoding error).
\<close>

record Library =
  JSONSpans :: "string \<Rightarrow> Span list option"
  JSONTraces :: "string \<Rightarrow> Trace list option"
  MsgpackTraces :: "string \<Rightarrow> Trace list option"
  Normalize :: "Span \<Rightarrow> Span \<times> string option"

text \<open>
  \<^verbatim>\<open>initDecoder\<close> followed by \<^verbatim>\<open>dec.Decode(&traces)\<close>: msgpack for the content type
  \<^verbatim>\<open>application/msgpack\<close>, JSON for any other.
\<close>

definition initDecoder :: "Library \<Rightarrow> string \<Rightarrow> string \<Rightarrow> Trace list option" where
  "initDecoder lib contentType bodyBuffer =
     (if contentType = ''application/msgpack'' then MsgpackTraces lib bodyBuffer
      else JSONTraces lib bodyBuffer)"

text \<open>
  The v0.1 regrouping: \<^verbatim>\<open>byID[s.TraceID] = append(byID[s.TraceID], s)\<close> for each span in
  turn, then one trace per key of \<^verbatim>\<open>byID\<close>, in the order in which Go's \<^verbatim>\<open>range\<close> visits the
  keys (\<open>order\<close>; the language leaves it open).
\<close>

definition byID :: "Span list \<Rightarrow> (uint64 \<rightharpoonup> Trace)" where
  "byID spans =
     foldl (\<lambda>m s. m(TraceID s \<mapsto> (case m (TraceID s) of None \<Rightarrow> [] | Some t \<Rightarrow> t) @ [s]))
       Map.empty spans"

definition range_byID :: "uint64 list \<Rightarrow> (uint64 \<rightharpoonup> Trace) \<Rightarrow> Trace list" where
  "range_byID order m = List.map_filter m order"

text \<open>
  The \<^verbatim>\<open>switch v\<close> of \<^verbatim>\<open>handleTraces\<close>. \<open>Inl w\<close>: the handler has written an error response
  and returns. \<open>Inr (w, traces)\<close>: the handler goes on with \<open>traces\<close>. The \<^verbatim>\<open>default\<close> case
  writes an error and does not return.
\<close>

definition decode_traces ::
  "Library \<Rightarrow> uint64 list \<Rightarrow> APIVersion \<Rightarrow> string \<Rightarrow> string \<Rightarrow> ResponseWriter \<Rightarrow>
   ResponseWriter + ResponseWriter \<times> Trace list" where
  "decode_traces lib order v contentType bodyBuffer w =
     (if v = v01 then
        if contentType \<noteq> ''application/json'' \<and> contentType \<noteq> ''text/json'' \<and> contentType \<noteq> ''''
        then Inl (HTTPErrorAndLog w 415 ''decoding-error'')
        else
          (case JSONSpans lib bodyBuffer of
             None \<Rightarrow> Inl (HTTPErrorAndLog w 500 ''decoding-error'')
           | Some spans \<Rightarrow> Inr (w, range_byID order (byID spans)))
      else if v = v02 then
        if contentType \<noteq> ''application/json'' \<and> contentType \<noteq> ''text/json'' \<and> contentType \<noteq> ''''
        then Inl (HTTPErrorAndLog w 415 ''decoding-error'')
        else
          (case JSONTraces lib bodyBuffer of
             None \<Rightarrow> Inl (HTTPErrorAndLog w 500 ''decoding-error'')
           | Some traces \<Rightarrow> Inr (w, traces))
      else if v = v03 then
        (case initDecoder lib contentType bodyBuffer of
           None \<Rightarrow> Inl (HTTPErrorAndLog w 500 ''decoding-error'')
         | Some traces \<Rightarrow> Inr (w, traces))
      else Inr (HTTPErrorAndLog w 500 ''unsupported-endpoint'', []))"

subsection \<open>Validation of the traces\<close>

text \<open>
  The local counters \<^verbatim>\<open>var stotal, sdropped, ttotal, tdropped int\<close>. They count spans and
  traces of one request body held in memory, far below the range of Go's \<^verbatim>\<open>int\<close>.
\<close>

record tally =
  stotal :: int
  sdropped :: int
  ttotal :: int
  tdropped :: int

definition zero_tally :: tally where
  "zero_tally = \<lparr>stotal = 0, sdropped = 0, ttotal = 0, tdropped = 0\<rparr>"

text \<open>
  The inner loop \<^verbatim>\<open>for i := range t\<close>, from index \<open>i\<close> on: \<open>tid\<close> is \<^verbatim>\<open>id\<close>, the trace ID of the
  span before, \<open>toRemove\<close> the indices collected, \<open>seen\<close> the spans already visited, as
  \<^verbatim>\<open>Normalize\<close> left them in the slice. \<open>None\<close>: a trace ID mismatch
  (\<^verbatim>\<open>continue Traces\<close>). Otherwise the indices to remove and the slice after the loop.
\<close>

fun check_spans ::
  "(Span \<Rightarrow> Span \<times> string option) \<Rightarrow> nat \<Rightarrow> uint64 \<Rightarrow> Span list \<Rightarrow> nat list \<Rightarrow> Span list \<Rightarrow>
   (nat list \<times> Span list) option" where
  "check_spans N i tid [] toRemove seen = Some (toRemove, seen)"
| "check_spans N i tid (s # rest) toRemove seen =
     (if i \<noteq> 0 \<and> TraceID s \<noteq> tid then None
      else
        (case N s of
           (s', err) \<Rightarrow>
             check_spans N (Suc i) (TraceID s) rest
               (if err \<noteq> None then toRemove @ [i] else toRemove) (seen @ [s'])))"

text \<open>
  The loop \<^verbatim>\<open>for i:=len(toRemove)-1; i >= 0; i--\<close>, on the indices still to visit, last
  index first: the debug panic when \<^verbatim>\<open>idx > len(t)-1\<close> (a comparison of Go \<^verbatim>\<open>int\<close>s),
  else \<^verbatim>\<open>t[idx] = t[len(t)-1]; t = t[:len(t)-1]\<close>.
\<close>

fun remove_spans :: "nat list \<Rightarrow> 'a list \<Rightarrow> panic + 'a list" where
  "remove_spans [] t = Inr t"
| "remove_spans (idx # rest) t =
     (if int idx > int (length t) - 1 then Inl PanicNO
      else remove_spans rest (butlast (t[idx := last t])))"

text \<open>
  The body of the loop \<^verbatim>\<open>Traces: for _, t := range traces\<close> on trace \<open>t\<close>, with the local
  counters \<open>c\<close> and the traces sent on the channel \<^verbatim>\<open>l.traces\<close> so far, \<open>ch\<close>. A send on the
  channel appends to \<open>ch\<close>; that a full channel makes the handler wait is not modelled.
  The debug log line before the send reads \<^verbatim>\<open>t[0]\<close>.
\<close>

definition handle_trace ::
  "(Span \<Rightarrow> Span \<times> string option) \<Rightarrow> Trace \<Rightarrow> tally \<times> Trace list \<Rightarrow> panic + tally \<times> Trace list" where
  "handle_trace N t st =
     (case st of
        (c, ch) \<Rightarrow>
          (case check_spans N 0 0 t [] [] of
             None \<Rightarrow>
               Inr (c\<lparr>stotal := stotal c + int (length t),
                      sdropped := sdropped c + int (length t),
                      tdropped := tdropped c + 1\<rparr>, ch)
           | Some (toRemove, t') \<Rightarrow>
               let c' = c\<lparr>stotal := stotal c + int (length t'),
                          sdropped := sdropped c + int (length toRemove)\<rparr>
               in if length toRemove = length t' then Inr (c'\<lparr>tdropped := tdropped c' + 1\<rparr>, ch)
                  else
                    (case remove_spans (rev toRemove) t' of
                       Inl p \<Rightarrow> Inl p
                     | Inr t'' \<Rightarrow>
                         if t'' = [] then Inl IndexOutOfRange
                         else Inr (c'\<lparr>ttotal := ttotal c' + 1\<rparr>, ch @ [t'']))))"

fun traces_loop ::
  "(Span \<Rightarrow> Span \<times> string option) \<Rightarrow> Trace list \<Rightarrow> tally \<times> Trace list \<Rightarrow> panic + tally \<times> Trace list" where
  "traces_loop N [] st = Inr st"
| "traces_loop N (t # ts) st =
     (case handle_trace N t st of
        Inl p \<Rightarrow> Inl p
      | Inr st' \<Rightarrow> traces_loop N ts st')"

subsection \<open>The receiver and its handler\<close>

text \<open>
  \<^verbatim>\<open>receiverStats\<close>, and of \<^verbatim>\<open>HTTPReceiver\<close> the fields the handler touches: the traces
  sent on the channel \<^verbatim>\<open>traces\<close>, oldest first, and the counters.
\<close>

record receiverStats =
  Errors :: int64
  SpansReceived :: int64
  TracesReceived :: int64
  SpansDropped :: int64
  TracesDropped :: int64

record HTTPReceiver =
  traces :: "Trace list"
  stats :: receiverStats

text \<open>\<^verbatim>\<open>NewHTTPReceiver\<close>: an empty channel and counters at zero.\<close>

definition NewHTTPReceiver :: HTTPReceiver where
  "NewHTTPReceiver =
     \<lparr>traces = [],
      stats = \<lparr>Errors = 0, SpansReceived = 0, TracesReceived = 0, SpansDropped = 0,
               TracesDropped = 0\<rparr>\<rparr>"

text \<open>The four \<^verbatim>\<open>atomic.AddInt64\<close> calls that end the handler.\<close>

definition add_stats :: "tally \<Rightarrow> receiverStats \<Rightarrow> receiverStats" where
  "add_stats c st =
     st\<lparr>TracesReceived := TracesReceived st + word_of_int (ttotal c),
        SpansReceived := SpansReceived st + word_of_int (stotal c),
        TracesDropped := TracesDropped st + word_of_int (tdropped c),
        SpansDropped := SpansDropped st + word_of_int (sdropped c)\<rparr>"

text \<open>
  \<^verbatim>\<open>HTTPReceiver.handleTraces\<close> for version \<open>v\<close>, response writer \<open>w\<close> and request \<open>r\<close>, on
  the receiver \<open>l\<close>. The result is the response writer and the receiver as the handler
  leaves them, or a panic.
\<close>

definition handleTraces ::
  "Library \<Rightarrow> uint64 list \<Rightarrow> APIVersion \<Rightarrow> ResponseWriter \<Rightarrow> Request \<Rightarrow> HTTPReceiver \<Rightarrow>
   panic + ResponseWriter \<times> HTTPReceiver" where
  "handleTraces lib order v w r l =
     (case Body r of
        None \<Rightarrow> Inr (w, l)
      | Some ReadError \<Rightarrow> Inr (w, l)
      | Some (ReadAll bodyBytes) \<Rightarrow>
          (case decode_traces lib order v (ContentType r) bodyBytes w of
             Inl w' \<Rightarrow> Inr (w', l)
           | Inr (w', traces_in) \<Rightarrow>
               let w'' = HTTPOK w' in
               (case traces_loop (Normalize lib) traces_in (zero_tally, traces l) of
                  Inl p \<Rightarrow> Inl p
                | Inr (c, ch) \<Rightarrow> Inr (w'', l\<lparr>traces := ch, stats := add_stats c (stats l)\<rparr>))))"

section \<open>Agent (unnamed/part_001)\<close>

text \<open>
  The fields of \<^verbatim>\<open>config.AgentConfig\<close> the agent reads; durations and the cutoff are
  nanoseconds.
\<close>

record AgentConfig =
  HostName :: string
  DefaultEnv :: string
  ExtraAggregators :: "string list"
  BucketInterval :: int64
  OldestSpanCutoff :: int64

text \<open>
  \<^verbatim>\<open>model.AgentPayload\<close>, with its fields \<^verbatim>\<open>HostName\<close>, \<^verbatim>\<open>Env\<close>, \<^verbatim>\<open>Stats\<close> and
  \<^verbatim>\<open>Traces\<close>; a \<^verbatim>\<open>nil\<close> slice is the empty list.
\<close>

record 'b AgentPayload =
  PayloadHostName :: string
  PayloadEnv :: string
  Stats :: "'b list"
  Traces :: "Trace list"

text \<open>
  Modelled from the spec: the functions of the packages \<^verbatim>\<open>model\<close> and \<^verbatim>\<open>quantizer\<close> that
  \<^verbatim>\<open>Agent.Process\<close> calls are not among the sources at hand. The spec has Process compute
  the sublayers from the trace's span tree, resolve the root, attach the sublayers to
  the root, quantize every span and resolve the env. \<open>GetRoot\<close> returns a pointer to a
  span of the trace, here the index of that span.
\<close>

record 'sl Model =
  ComputeSublayers :: "Trace \<Rightarrow> 'sl list option"
  GetRoot :: "Trace \<Rightarrow> nat"
  PinSublayersOnSpan :: "Span \<Rightarrow> 'sl list option \<Rightarrow> Span"
  Quantize :: "Span \<Rightarrow> Span"
  GetEnv :: "Trace \<Rightarrow> string"

text \<open>The goroutines \<^verbatim>\<open>Agent.Process\<close> starts with \<^verbatim>\<open>go\<close>.\<close>

datatype 'sl goroutine =
  Go_Concentrator_Add "'sl processedTrace"
| Go_Sampler_Add "'sl processedTrace"

text \<open>
  \<^verbatim>\<open>Agent.Process\<close> on trace \<open>t\<close>, with \<open>now\<close> the value of \<^verbatim>\<open>model.Now()\<close>: the goroutines
  it starts, in order. The root is pinned in place, inside the trace, before its end is
  compared with the cutoff.
\<close>

definition Process :: "'sl Model \<Rightarrow> AgentConfig \<Rightarrow> int64 \<Rightarrow> Trace \<Rightarrow> 'sl goroutine list" where
  "Process m conf now t =
     (if length t = 0 then []
      else
        let sublayers = ComputeSublayers m t;
            root = GetRoot m t;
            t1 = t[root := PinSublayersOnSpan m (t ! root) sublayers]
        in if End (t1 ! root) <s now - OldestSpanCutoff conf then []
           else
             let t2 = map (Quantize m) t1;
                 pt = \<lparr>Trace = t2, Root = Some (t2 ! root), Env = GetEnv m t2,
                       Sublayers = sublayers\<rparr>
             in [Go_Concentrator_Add pt, Go_Sampler_Add pt])"

text \<open>
  The \<^verbatim>\<open>flushTicker\<close> case of \<^verbatim>\<open>Agent.Run\<close>. After the two \<^verbatim>\<open>go\<close> statements three
  things are left to happen: the send \<^verbatim>\<open>a.Writer.inPayloads <- p\<close> of the main goroutine,
  which sends the value \<^verbatim>\<open>p\<close> has at that moment, the assignment
  \<^verbatim>\<open>p.Stats = a.Concentrator.Flush()\<close> of the first goroutine and the assignment
  \<^verbatim>\<open>p.Traces = a.Sampler.Flush()\<close> of the second. The code calls \<^verbatim>\<open>wg.Add(2)\<close> and
  \<^verbatim>\<open>wg.Done()\<close> and never \<^verbatim>\<open>wg.Wait()\<close>: nothing orders the three, and the scheduler
  picks the order, the \<open>schedule\<close> of the model. The field \<open>payload\<close> is the variable
  \<^verbatim>\<open>p\<close>, \<open>inPayloads\<close> the values sent to the writer, oldest first.
\<close>

datatype tick_step = MainSend | GoStats | GoTraces

record ('b, 'smp) tick_state =
  payload :: "'b AgentPayload"
  concentrator :: "'b Concentrator"
  sampler :: 'smp
  inPayloads :: "'b AgentPayload list"

text \<open>
  Modelled from the spec: \<^verbatim>\<open>Sampler.Flush\<close> is not among the sources at hand; the spec
  has it return the staged traces. It is the parameter \<open>SamplerFlush\<close> on a sampler state
  \<open>'smp\<close>. The rest is the source: one of the three actions, on the state of the tick.
\<close>

definition run_step ::
  "('smp \<Rightarrow> Trace list \<times> 'smp) \<Rightarrow> int64 \<Rightarrow> int64 list \<Rightarrow> ('b, 'smp) tick_state \<Rightarrow> tick_step \<Rightarrow>
   ('b, 'smp) tick_state" where
  "run_step SamplerFlush now order st ev =
     (case ev of
        MainSend \<Rightarrow> st\<lparr>inPayloads := inPayloads st @ [payload st]\<rparr>
      | GoStats \<Rightarrow>
          (case Concentrator_Flush now order (concentrator st) of
             (sb, c') \<Rightarrow> st\<lparr>payload := (payload st)\<lparr>Stats := sb\<rparr>, concentrator := c'\<rparr>)
      | GoTraces \<Rightarrow>
          (case SamplerFlush (sampler st) of
             (ts, s') \<Rightarrow> st\<lparr>payload := (payload st)\<lparr>Traces := ts\<rparr>, sampler := s'\<rparr>))"

text \<open>
  The tick: \<^verbatim>\<open>p\<close> is set up with the configured host name and env, and the three actions
  run in the order of the schedule.
\<close>

definition flush_tick ::
  "('smp \<Rightarrow> Trace list \<times> 'smp) \<Rightarrow> int64 \<Rightarrow> int64 list \<Rightarrow> AgentConfig \<Rightarrow> tick_step list \<Rightarrow>
   ('b, 'smp) tick_state \<Rightarrow> ('b, 'smp) tick_state" where
  "flush_tick SamplerFlush now order conf schedule st =
     foldl (run_step SamplerFlush now order)
       (st\<lparr>payload := \<lparr>PayloadHostName = HostName conf, PayloadEnv = DefaultEnv conf,
                 Stats = [], Traces = []\<rparr>\<rparr>)
       schedule"

section \<open>Example values\<close>

text \<open>A span like the \<^verbatim>\<open>testSpan\<close> of the model's tests, with the IDs and times given.\<close>

definition mk_span :: "uint64 \<Rightarrow> uint64 \<Rightarrow> int64 \<Rightarrow> int64 \<Rightarrow> Span" where
  "mk_span tid sid st d =
     \<lparr>Service = ''django'', Name = ''django.controller'', Resource = ''GET /some/raclette'',
      TraceID = tid, SpanID = sid, Start = st, Duration = d, Error = 0,
      Meta = Map.empty, Metrics = Map.empty, ParentID = 0, Type = ''http''\<rparr>"

text \<open>A normalizer that rejects the spans with a zero span ID and changes no span.\<close>

definition reject_zero_id :: "Span \<Rightarrow> Span \<times> string option" where
  "reject_zero_id s = (s, if SpanID s = 0 then Some ''zero span ID'' else None)"

text \<open>
  A library whose JSON decoder of traces returns \<open>ts\<close> for every body and whose other
  decoders fail.
\<close>

definition example_library :: "Trace list \<Rightarrow> Library" where
  "example_library ts =
     \<lparr>JSONSpans = (\<lambda>b. None), JSONTraces = (\<lambda>b. Some ts), MsgpackTraces = (\<lambda>b. None),
      Normalize = reject_zero_id\<rparr>"

section \<open>Properties of the concentrator\<close>

subsection \<open>Signed arithmetic on 64-bit words\<close>

lemma smod_nonneg: "0 \<le> (a::int) \<Longrightarrow> 0 \<le> a smod b \<and> a smod b \<le> a"
  by (cases "b = 0") (auto simp: smod_int_alt_def sgn_if intro: zmod_le_nonneg_dividend)

lemma smod_nonpos: "(a::int) \<le> 0 \<Longrightarrow> a \<le> a smod b \<and> a smod b \<le> 0"
  using smod_nonneg [of "- a" b] by simp

lemma sint_word_of_int64:
  "- (2 ^ 63) \<le> k \<Longrightarrow> k < 2 ^ 63 \<Longrightarrow> sint (word_of_int k :: 64 word) = k"
  by (simp add: sint_sbintrunc' signed_take_bit_int_eq_self)

lemma sint_diff64:
  fixes a b :: "64 word"
  assumes "- (2 ^ 63) \<le> sint a - sint b" "sint a - sint b < 2 ^ 63"
  shows "sint (a - b) = sint a - sint b"
proof -
  have "a - b = word_of_int (sint a - sint b)" by simp
  with assms show ?thesis by (simp only: sint_word_of_int64)
qed

lemma sint_rem64: "sint (rem64 a b) = sint a smod sint b"
proof -
  have r: "- (2 ^ 63) \<le> sint a" "sint a < 2 ^ 63"
    using sint_ge [of a] sint_lt [of a] by simp_all
  have "- (2 ^ 63) \<le> sint a smod sint b \<and> sint a smod sint b < 2 ^ 63"
  proof (cases "0 \<le> sint a")
    case True
    with smod_nonneg [of "sint a" "sint b"] r show ?thesis by linarith
  next
    case False
    with smod_nonpos [of "sint a" "sint b"] r show ?thesis by linarith
  qed
  then show ?thesis
    unfolding rem64_def by (simp only: sint_word_of_int64)
qed

lemma sint_btime: "sint (a - rem64 a b) = sint a sdiv sint b * sint b"
proof -
  have r: "- (2 ^ 63) \<le> sint a" "sint a < 2 ^ 63"
    using sint_ge [of a] sint_lt [of a] by simp_all
  have "- (2 ^ 63) \<le> sint a - sint a smod sint b \<and> sint a - sint a smod sint b < 2 ^ 63"
  proof (cases "0 \<le> sint a")
    case True
    with smod_nonneg [of "sint a" "sint b"] r show ?thesis by linarith
  next
    case False
    with smod_nonpos [of "sint a" "sint b"] r show ?thesis by linarith
  qed
  then have "sint (a - rem64 a b) = sint a - sint (rem64 a b)"
    by (simp only: sint_diff64 sint_rem64)
  then show ?thesis by (simp add: sint_rem64 minus_smod_eq_sdiv_mult)
qed

text \<open>
  With a time and a bucket size that are not negative, the subtraction of the flush
  threshold does not wrap around.
\<close>

lemma flush_threshold_int:
  fixes now bs ts :: int64
  assumes "0 \<le> sint now" and "0 \<le> sint bs"
  shows "ts \<le>s now - bs \<longleftrightarrow> sint ts \<le> sint now - sint bs"
proof -
  have "- (2 ^ 63) \<le> sint now - sint bs" "sint now - sint bs < 2 ^ 63"
    using assms sint_lt [of now] sint_lt [of bs] by simp_all
  then show ?thesis
    by (simp only: word_sle_eq sint_diff64)
qed

subsection \<open>Flush\<close>

lemma flush_loop_eq:
  "distinct ks \<Longrightarrow> set ks \<subseteq> dom m \<Longrightarrow>
   flush_loop now bs m sb ks =
     (sb @ map (the \<circ> m) (filter (\<lambda>ts. ts \<le>s now - bs) ks),
      (\<lambda>ts. if ts \<in> set ks \<and> ts \<le>s now - bs then None else m ts))"
proof (induction ks arbitrary: m sb)
  case Nil
  then show ?case by simp
next
  case (Cons k ks)
  then obtain b where b: "m k = Some b" by auto
  show ?case
  proof (cases "now - bs <s k")
    case True
    then have "\<not> k \<le>s now - bs" by (simp add: word_sless_alt word_sle_eq)
    with True b Cons show ?thesis by (auto simp: fun_eq_iff)
  next
    case False
    then have le: "k \<le>s now - bs" by (simp add: word_sless_alt word_sle_eq)
    have d: "distinct ks" "set ks \<subseteq> dom (m(k := None))" using Cons.prems by auto
    have eq: "map (the \<circ> m(k := None)) (filter (\<lambda>ts. ts \<le>s now - bs) ks) = map (the \<circ> m) (filter (\<lambda>ts. ts \<le>s now - bs) ks)"
      using Cons.prems by (intro map_cong) auto
    have "flush_loop now bs m sb (k # ks) = flush_loop now bs (m(k := None)) (sb @ [b]) ks"
      using False b by simp
    also have "\<dots> = ((sb @ [b]) @ map (the \<circ> m(k := None)) (filter (\<lambda>ts. ts \<le>s now - bs) ks),
      (\<lambda>ts. if ts \<in> set ks \<and> ts \<le>s now - bs then None else (m(k := None)) ts))"
      by (rule Cons.IH [OF d])
    also have "\<dots> = (sb @ map (the \<circ> m) (filter (\<lambda>ts. ts \<le>s now - bs) (k # ks)),
      (\<lambda>ts. if ts \<in> set (k # ks) \<and> ts \<le>s now - bs then None else m ts))"
      using le b by (auto simp only: eq fun_eq_iff) (auto simp: fun_eq_iff)
    finally show ?thesis .
  qed
qed

subsection \<open>Add\<close>

lemma btime_multiple: "sint (btime bs s) = sint (End s) sdiv sint bs * sint bs"
  by (simp add: btime_def sint_btime)

lemma add_loop_eq:
  "bsize c \<noteq> 0 \<Longrightarrow>
   add_loop New Handle t c ss =
     Inr (c\<lparr>buckets := (\<lambda>k.
       case filter (\<lambda>s. btime (bsize c) s = k) ss of
         [] \<Rightarrow> buckets c k
       | s # ss' \<Rightarrow>
           Some (foldl (\<lambda>b s. Handle b s (Env t) (aggregators c) (span_sublayers t s))
                   (case buckets c k of None \<Rightarrow> New k (bsize c) | Some b \<Rightarrow> b) (s # ss')))\<rparr>)"
proof (induction ss arbitrary: c)
  case Nil
  then show ?case by simp
next
  case (Cons s ss)
  define H where "H = (\<lambda>b s. Handle b s (Env t) (aggregators c) (span_sublayers t s))"
  define m1 where "m1 = (buckets c)(btime (bsize c) s \<mapsto>
      H (case buckets c (btime (bsize c) s) of None \<Rightarrow> New (btime (bsize c) s) (bsize c) | Some b \<Rightarrow> b) s)"
  have step: "add_span New Handle t c s = Inr (c\<lparr>buckets := m1\<rparr>)"
    using Cons.prems by (simp add: add_span_def Let_def m1_def H_def)
  have bs: "bsize (c\<lparr>buckets := m1\<rparr>) \<noteq> 0" using Cons.prems by simp
  have feq: "(\<lambda>k. case filter (\<lambda>s. btime (bsize c) s = k) ss of
         [] \<Rightarrow> m1 k
       | s # ss' \<Rightarrow> Some (foldl H (case m1 k of None \<Rightarrow> New k (bsize c) | Some b \<Rightarrow> b) (s # ss')))
     = (\<lambda>k. case filter (\<lambda>s. btime (bsize c) s = k) (s # ss) of
         [] \<Rightarrow> buckets c k
       | s # ss' \<Rightarrow> Some (foldl H (case buckets c k of None \<Rightarrow> New k (bsize c) | Some b \<Rightarrow> b) (s # ss')))"
    by (rule ext) (auto simp: m1_def split: list.splits)
  have "add_loop New Handle t c (s # ss) = add_loop New Handle t (c\<lparr>buckets := m1\<rparr>) ss"
    using step by simp
  also have "\<dots> = Inr (c\<lparr>buckets := (\<lambda>k. case filter (\<lambda>s. btime (bsize c) s = k) ss of
         [] \<Rightarrow> m1 k
       | s # ss' \<Rightarrow> Some (foldl H (case m1 k of None \<Rightarrow> New k (bsize c) | Some b \<Rightarrow> b) (s # ss')))\<rparr>)"
    using Cons.IH [OF bs] by (simp add: H_def cong: list.case_cong option.case_cong)
  finally show ?case
    unfolding feq by (simp add: H_def cong: list.case_cong option.case_cong)
qed

lemma flush_loop_sub:
  "flush_loop now bs m sb ks = (sb', m') \<Longrightarrow> m' k = Some b \<Longrightarrow> m k = Some b"
proof (induction ks arbitrary: m sb)
  case Nil
  then show ?case by simp
next
  case (Cons a ks)
  then show ?case
    by (fastforce split: option.splits if_splits)
qed

lemma flush_aligned: "aligned c \<Longrightarrow> aligned (snd (Concentrator_Flush now order c))"
proof -
  assume a: "aligned c"
  obtain sb m where f: "flush_loop now (bsize c) (buckets c) [] order = (sb, m)"
    by (cases "flush_loop now (bsize c) (buckets c) [] order")
  have "k \<in> dom (buckets c)" if "k \<in> dom m" for k
    using that flush_loop_sub [OF f] by auto
  with a show ?thesis
    by (simp add: aligned_def Concentrator_Flush_def f)
qed

text \<open>
  Claim C1. \<^verbatim>\<open>Concentrator.Flush\<close> at time \<open>now\<close> returns the buckets stored under exactly
  the keys \<open>ts\<close> with \<open>ts \<le> now - bsize\<close> (the subtraction and the signed comparison of
  the code), one bucket for each such key, in the order of the visit, and removes exactly
  those keys from the bucket map: a bucket under a key greater than \<open>now - bsize\<close> is
  not returned and stays in the map, unchanged.
\<close>

theorem Flush_complete_buckets:
  assumes "distinct order" and "set order = dom (buckets c)"
  shows "Concentrator_Flush now order c =
           (map (the \<circ> buckets c) (filter (\<lambda>ts. ts \<le>s now - bsize c) order),
            c\<lparr>buckets := (\<lambda>ts. if ts \<le>s now - bsize c then None else buckets c ts)\<rparr>)"
proof -
  have "set order \<subseteq> dom (buckets c)" using assms by simp
  from flush_loop_eq [OF assms(1) this, of now "bsize c" "[]"]
  have "flush_loop now (bsize c) (buckets c) [] order =
      (map (the \<circ> buckets c) (filter (\<lambda>ts. ts \<le>s now - bsize c) order),
       (\<lambda>ts. if ts \<in> set order \<and> ts \<le>s now - bsize c then None else buckets c ts))"
    by simp
  moreover have "(\<lambda>ts. if ts \<in> set order \<and> ts \<le>s now - bsize c then None else buckets c ts)
     = (\<lambda>ts. if ts \<le>s now - bsize c then None else buckets c ts)"
    using assms(2) by (auto simp: fun_eq_iff)
  ultimately show ?thesis
    by (simp add: Concentrator_Flush_def)
qed

text \<open>
  Claim C2. With a non-zero bucket size \<^verbatim>\<open>Concentrator.Add\<close> returns, and every span \<open>s\<close>
  of the trace is handled in exactly one bucket, the one under the key
  \<open>btime = s.End() - s.End() % bsize\<close>: the bucket under a key \<open>k\<close> afterwards is the
  bucket before (a new one where there was none) after \<^verbatim>\<open>HandleSpan\<close> on the spans of the
  trace with \<open>btime = k\<close>, in order, and the bucket before where the trace has no such
  span. Every such key is an integer multiple of the bucket size, and both Add and Flush
  keep every key of the bucket map a multiple of the bucket size.
\<close>

theorem Add_bucket_alignment:
  assumes "bsize c \<noteq> 0"
  shows "\<exists>c'. Concentrator_Add New Handle c t = Inr c' \<and>
           aggregators c' = aggregators c \<and> bsize c' = bsize c \<and>
           (\<forall>k. buckets c' k =
              (case filter (\<lambda>s. btime (bsize c) s = k) (Trace t) of
                 [] \<Rightarrow> buckets c k
               | s # ss \<Rightarrow>
                   Some (foldl (\<lambda>b s. Handle b s (Env t) (aggregators c) (span_sublayers t s))
                          (case buckets c k of None \<Rightarrow> New k (bsize c) | Some b \<Rightarrow> b) (s # ss)))) \<and>
           (\<forall>s. sint (btime (bsize c) s) = sint (End s) sdiv sint (bsize c) * sint (bsize c)) \<and>
           (aligned c \<longrightarrow> aligned c') \<and>
           (aligned c \<longrightarrow> aligned (snd (Concentrator_Flush now order c)))"
proof -
  let ?c' = "c\<lparr>buckets := (\<lambda>k.
       case filter (\<lambda>s. btime (bsize c) s = k) (Trace t) of
         [] \<Rightarrow> buckets c k
       | s # ss' \<Rightarrow>
           Some (foldl (\<lambda>b s. Handle b s (Env t) (aggregators c) (span_sublayers t s))
                   (case buckets c k of None \<Rightarrow> New k (bsize c) | Some b \<Rightarrow> b) (s # ss')))\<rparr>"
  have eq: "Concentrator_Add New Handle c t = Inr ?c'"
    unfolding Concentrator_Add_def by (rule add_loop_eq [OF assms])
  have al: "aligned ?c'" if a: "aligned c"
    unfolding aligned_def
  proof
    fix k assume "k \<in> dom (buckets ?c')"
    then consider "k \<in> dom (buckets c)" | s where "btime (bsize c) s = k"
      by (cases "filter (\<lambda>s. btime (bsize c) s = k) (Trace t)") (auto simp: filter_eq_Cons_iff dom_def)
    then show "sint (bsize ?c') dvd sint k"
    proof cases
      case 1
      with a show ?thesis by (auto simp: aligned_def)
    next
      case 2
      then show ?thesis using btime_multiple [of "bsize c" s] by simp
    qed
  qed
  show ?thesis
    using eq al flush_aligned [of c now order] btime_multiple by (intro exI [of _ ?c']) simp
qed

theorem Flush_complete_buckets_witness:
  "distinct [20, 10 :: int64] \<and>
   set [20, 10] = dom (buckets \<lparr>aggregators = [], bsize = 10, buckets = [10 \<mapsto> ''a'', 20 \<mapsto> ''b'']\<rparr>) \<and>
   fst (Concentrator_Flush 25 [20, 10]
          \<lparr>aggregators = [], bsize = 10, buckets = [10 \<mapsto> ''a'', 20 \<mapsto> ''b'']\<rparr>) = [''a''] \<and>
   buckets (snd (Concentrator_Flush 25 [20, 10]
          \<lparr>aggregators = [], bsize = 10, buckets = [10 \<mapsto> ''a'', 20 \<mapsto> ''b'']\<rparr>)) 10 = None \<and>
   buckets (snd (Concentrator_Flush 25 [20, 10]
          \<lparr>aggregators = [], bsize = 10, buckets = [10 \<mapsto> ''a'', 20 \<mapsto> ''b'']\<rparr>)) 20 = Some ''b''"
  using Flush_complete_buckets [of "[20, 10]"
      "\<lparr>aggregators = [], bsize = 10, buckets = [10 \<mapsto> ''a'', 20 \<mapsto> ''b'']\<rparr>" 25]
  by simp

theorem Add_bucket_alignment_witness:
  "bsize \<lparr>aggregators = [], bsize = 10, buckets = Map.empty\<rparr> \<noteq> 0 \<and>
   aligned \<lparr>aggregators = [], bsize = 10, buckets = (Map.empty :: int64 \<rightharpoonup> nat)\<rparr> \<and>
   (\<exists>c'. Concentrator_Add (\<lambda>ts bs. 0 :: nat) (\<lambda>b s env ags sl. Suc b)
            \<lparr>aggregators = [], bsize = 10, buckets = Map.empty\<rparr>
            \<lparr>Trace = [mk_span 1 1 20 5, mk_span 1 2 21 6, mk_span 1 3 30 1], Root = None,
              Env = ''prod'', Sublayers = (None :: unit list option)\<rparr> = Inr c' \<and>
          buckets c' 20 = Some 2 \<and> buckets c' 30 = Some 1 \<and> buckets c' 10 = None \<and> aligned c')"
  using Add_bucket_alignment [of "\<lparr>aggregators = [], bsize = 10, buckets = Map.empty\<rparr>"
      "\<lambda>ts bs. 0 :: nat" "\<lambda>b s env ags sl. Suc b"
      "\<lparr>Trace = [mk_span 1 1 20 5, mk_span 1 2 21 6, mk_span 1 3 30 1], Root = None,
              Env = ''prod'', Sublayers = (None :: unit list option)\<rparr>" 0 "[]"]
  by (auto simp: aligned_def btime_def rem64_def End_def mk_span_def)

section \<open>Properties of the receiver\<close>

subsection \<open>The removal of the indices\<close>

lemma mset_swap_truncate:
  assumes "d < length t"
  shows "add_mset (t ! d) (mset (butlast (t[d := last t]))) = mset t"
proof -
  let ?u = "t[d := last t]"
  from assms have ne: "?u \<noteq> []" by auto
  have lu: "last ?u = last t"
  proof -
    from assms have "t \<noteq> []" by auto
    then have "last t = t ! (length t - 1)" by (rule last_conv_nth)
    moreover have "last ?u = ?u ! (length t - 1)" using ne by (simp add: last_conv_nth)
    moreover have "?u ! (length t - 1) = (if d = length t - 1 then last t else t ! (length t - 1))"
      using assms by (simp add: nth_list_update)
    ultimately show ?thesis by simp
  qed
  have "butlast ?u @ [last t] = ?u"
    using append_butlast_last_id [OF ne] lu by simp
  then have "mset ?u = mset (butlast ?u @ [last t])" by simp
  then have "mset ?u = add_mset (last t) (mset (butlast ?u))" by simp
  moreover have "mset ?u = add_mset (last t) (mset t - {#t ! d#})"
    using assms by (simp add: mset_update)
  ultimately have "mset (butlast ?u) = mset t - {#t ! d#}" by simp
  then show ?thesis using assms by simp
qed

lemma remove_spans_ok:
  "sorted_wrt (>) ds \<Longrightarrow> \<forall>d \<in> set ds. d < length t \<Longrightarrow>
   \<exists>t'. remove_spans ds t = Inr t' \<and> mset t' + mset (map ((!) t) ds) = mset t"
proof (induction ds arbitrary: t)
  case Nil
  then show ?case by simp
next
  case (Cons d ds)
  let ?t1 = "butlast (t[d := last t])"
  from Cons.prems have d: "d < length t" by simp
  have below: "x < d" if "x \<in> set ds" for x using that Cons.prems(1) by auto
  then have "\<forall>x \<in> set ds. x < length ?t1" using d by fastforce
  with Cons.IH [of ?t1] Cons.prems(1)
  obtain t' where t': "remove_spans ds ?t1 = Inr t'" "mset t' + mset (map ((!) ?t1) ds) = mset ?t1"
    by auto
  have "map ((!) ?t1) ds = map ((!) t) ds"
  proof (rule map_cong [OF refl])
    fix x assume "x \<in> set ds"
    then have "x < d" by (rule below)
    with d show "?t1 ! x = t ! x" by (simp add: nth_butlast)
  qed
  with t'(2) have "mset t' + mset (map ((!) t) (d # ds)) = add_mset (t ! d) (mset ?t1)"
    by simp
  also have "\<dots> = mset t" by (rule mset_swap_truncate [OF d])
  finally show ?case using t'(1) d by simp
qed

subsection \<open>The loop over the spans of a trace\<close>

lemma check_spans_mismatch:
  "(i \<noteq> 0 \<and> (\<exists>s \<in> set ss. TraceID s \<noteq> tid)) \<or>
   (\<exists>s \<in> set ss. \<exists>s' \<in> set ss. TraceID s \<noteq> TraceID s') \<Longrightarrow>
   check_spans N i tid ss rm seen = None"
proof (induction ss arbitrary: i tid rm seen)
  case Nil
  then show ?case by simp
next
  case (Cons s ss)
  show ?case
  proof (cases "i \<noteq> 0 \<and> TraceID s \<noteq> tid")
    case True
    then show ?thesis by simp
  next
    case False
    have "(\<exists>x \<in> set ss. TraceID x \<noteq> TraceID s) \<or>
          (\<exists>x \<in> set ss. \<exists>y \<in> set ss. TraceID x \<noteq> TraceID y)"
      using Cons.prems False by (metis set_ConsD)
    then have "check_spans N (Suc i) (TraceID s) ss rm' seen' = None" for rm' seen'
      by (intro Cons.IH) simp
    then have "check_spans N (Suc i) (TraceID s) ss
        (if snd (N s) \<noteq> None then rm @ [i] else rm) (seen @ [fst (N s)]) = None" .
    moreover have "check_spans N i tid (s # ss) rm seen =
        check_spans N (Suc i) (TraceID s) ss
          (if snd (N s) \<noteq> None then rm @ [i] else rm) (seen @ [fst (N s)])"
      using False by (cases "N s") (auto simp del: not_None_eq)
    ultimately show ?thesis by (simp only:)
  qed
qed

lemma check_spans_same:
  "\<forall>s \<in> set ss. TraceID s = a \<Longrightarrow> i = 0 \<or> tid = a \<Longrightarrow>
   check_spans N i tid ss rm seen =
     Some (rm @ map fst (filter (\<lambda>(k, s). snd (N s) \<noteq> None) (zip [i..<i + length ss] ss)),
           seen @ map (fst \<circ> N) ss)"
proof (induction ss arbitrary: i tid rm seen)
  case Nil
  then show ?case by simp
next
  case (Cons s ss)
  have upt: "[i..<i + length (s # ss)] = i # [Suc i..<Suc i + length ss]"
    using upt_conv_Cons [of i "i + length (s # ss)"] by simp
  have ih: "check_spans N (Suc i) (TraceID s) ss rm' seen' =
     Some (rm' @ map fst (filter (\<lambda>(k, s). snd (N s) \<noteq> None) (zip [Suc i..<Suc i + length ss] ss)),
           seen' @ map (fst \<circ> N) ss)" for rm' seen'
    using Cons.prems by (intro Cons.IH) simp_all
  have nomis: "\<not> (i \<noteq> 0 \<and> TraceID s \<noteq> tid)" using Cons.prems by auto
  show ?case
  proof (cases "N s")
    case (Pair s' err)
    have "check_spans N i tid (s # ss) rm seen =
        check_spans N (Suc i) (TraceID s) ss (if err \<noteq> None then rm @ [i] else rm) (seen @ [s'])"
      using nomis Pair by (auto simp del: not_None_eq)
    then show ?thesis
      unfolding upt ih using Pair by (simp del: not_None_eq)
  qed
qed

lemma to_remove_sorted:
  "sorted_wrt (<) (map fst (filter P (zip [i..<i + length ss] ss)))"
proof -
  have "sorted_wrt (<) (map fst (zip [i..<i + length ss] ss))" by simp
  then have "sorted_wrt (\<lambda>a b. fst a < fst b) (zip [i..<i + length ss] ss)"
    by (simp only: sorted_wrt_map)
  then have "sorted_wrt (\<lambda>a b. fst a < fst b) (filter P (zip [i..<i + length ss] ss))"
    by (rule sorted_wrt_filter)
  then show ?thesis by (simp only: sorted_wrt_map)
qed

lemma to_remove_bound:
  "k \<in> set (map fst (filter P (zip [0..<length ss] ss))) \<Longrightarrow> k < length ss"
  by (auto dest: set_zip_leftD)

lemma to_remove_nth:
  "map ((!) (map f ss)) (map fst (filter (\<lambda>(k, s). Q s) (zip [0..<length ss] ss))) =
   map f (filter Q ss)"
proof -
  let ?zs = "zip [0..<length ss] ss"
  have "map ((!) (map f ss)) (map fst (filter (\<lambda>(k, s). Q s) ?zs)) =
        map (f \<circ> snd) (filter (Q \<circ> snd) ?zs)"
    unfolding map_map
  proof (rule map_cong)
    show "filter (\<lambda>(k, s). Q s) ?zs = filter (Q \<circ> snd) ?zs"
      by (simp add: case_prod_unfold comp_def)
  next
    fix x assume "x \<in> set (filter (Q \<circ> snd) ?zs)"
    then have "x \<in> set ?zs" by simp
    then obtain n where "n < length ss" "x = (n, ss ! n)"
      by (auto simp: in_set_zip)
    then show "((!) (map f ss) \<circ> fst) x = (f \<circ> snd) x" by simp
  qed
  also have "\<dots> = map f (filter Q (map snd ?zs))"
    by (simp only: filter_map map_map)
  also have "map snd ?zs = ss" by simp
  finally show ?thesis .
qed

lemma to_remove_length:
  "length (map fst (filter (\<lambda>(k, s). Q s) (zip [0..<length ss] ss))) = length (filter Q ss)"
proof -
  have "length (map ((!) (map id ss)) (map fst (filter (\<lambda>(k, s). Q s) (zip [0..<length ss] ss)))) =
        length (map id (filter Q ss))"
    by (simp only: to_remove_nth)
  then show ?thesis by simp
qed

lemma check_spans_Some_same:
  assumes "check_spans N 0 0 t [] [] = Some (toRemove, t')"
  shows "toRemove = map fst (filter (\<lambda>(k, s). snd (N s) \<noteq> None) (zip [0..<length t] t))"
    and "t' = map (fst \<circ> N) t"
proof -
  have "\<not> (\<exists>s \<in> set t. \<exists>s' \<in> set t. TraceID s \<noteq> TraceID s')"
  proof
    assume "\<exists>s \<in> set t. \<exists>s' \<in> set t. TraceID s \<noteq> TraceID s'"
    then have "check_spans N 0 0 t [] [] = None"
      by (intro check_spans_mismatch) simp
    with assms show False by simp
  qed
  then have "\<forall>s \<in> set t. TraceID s = TraceID (hd t)"
    by (metis hd_in_set empty_iff empty_set)
  from check_spans_same [OF this, of 0 0 N "[]" "[]"] assms
  show "toRemove = map fst (filter (\<lambda>(k, s). snd (N s) \<noteq> None) (zip [0..<length t] t))"
    and "t' = map (fst \<circ> N) t"
    by simp_all
qed

subsection \<open>One trace\<close>

lemma handle_trace_mismatch:
  assumes "\<exists>s \<in> set t. \<exists>s' \<in> set t. TraceID s \<noteq> TraceID s'"
  shows "handle_trace N t (c, ch) =
           Inr (c\<lparr>stotal := stotal c + int (length t),
                  sdropped := sdropped c + int (length t),
                  tdropped := tdropped c + 1\<rparr>, ch)"
proof -
  have "check_spans N 0 0 t [] [] = None"
    using assms by (intro check_spans_mismatch) simp
  then show ?thesis by (simp add: handle_trace_def)
qed

lemma handle_trace_same:
  assumes "\<forall>s \<in> set t. \<forall>s' \<in> set t. TraceID s = TraceID s'"
  shows "(if \<forall>s \<in> set t. snd (N s) \<noteq> None
          then handle_trace N t (c, ch) =
                 Inr (c\<lparr>stotal := stotal c + int (length t),
                        sdropped := sdropped c + int (length t),
                        tdropped := tdropped c + 1\<rparr>, ch)
          else \<exists>t''. handle_trace N t (c, ch) =
                 Inr (c\<lparr>stotal := stotal c + int (length t),
                        sdropped := sdropped c + int (length (filter (\<lambda>s. snd (N s) \<noteq> None) t)),
                        ttotal := ttotal c + 1\<rparr>, ch @ [t'']) \<and>
               mset t'' = image_mset (fst \<circ> N) (filter_mset (\<lambda>s. snd (N s) = None) (mset t)))"
proof -
  define failed where "failed = (\<lambda>s. snd (N s) \<noteq> None)"
  define L where "L = map fst (filter (\<lambda>(k, s). failed s) (zip [0..<length t] t))"
  define t' where "t' = map (fst \<circ> N) t"
  have "\<forall>s \<in> set t. TraceID s = TraceID (hd t)"
    using assms by (metis hd_in_set empty_iff empty_set)
  then obtain a where a: "\<forall>s \<in> set t. TraceID s = a" ..
  have chk: "check_spans N 0 0 t [] [] = Some (L, t')"
    using check_spans_same [OF a, of 0 0 N "[]" "[]"] by (simp add: L_def t'_def failed_def)
  have lenL: "length L = length (filter failed t)"
    unfolding L_def by (rule to_remove_length)
  have lent': "length t' = length t" by (simp add: t'_def)
  have all: "length L = length t' \<longleftrightarrow> (\<forall>s \<in> set t. failed s)"
    unfolding lenL lent' by (metis filter_id_conv length_filter_le filter_True order_refl
      length_filter_less less_irrefl)
  show ?thesis
  proof (cases "\<forall>s \<in> set t. failed s")
    case True
    then have "length L = length t'" using all by simp
    moreover have "length L = length t" using True lenL by simp
    ultimately show ?thesis
      using True chk lent' by (simp add: handle_trace_def failed_def)
  next
    case False
    then have ne: "length L \<noteq> length t'" using all by simp
    have "sorted_wrt (<) L"
      unfolding L_def using to_remove_sorted [of _ 0 t] by simp
    then have srt: "sorted_wrt (>) (rev L)"
      by (simp add: sorted_wrt_rev)
    have bnd: "\<forall>d \<in> set (rev L). d < length t'"
      unfolding L_def lent' using to_remove_bound [of _ _ t] by auto
    from remove_spans_ok [OF srt bnd]
    obtain t'' where t'': "remove_spans (rev L) t' = Inr t''"
      "mset t'' + mset (map ((!) t') (rev L)) = mset t'"
      by blast
    have "mset (map ((!) t') (rev L)) = mset (map ((!) t') L)"
      by (simp add: rev_map [symmetric])
    also have "map ((!) t') L = map (fst \<circ> N) (filter failed t)"
      unfolding L_def t'_def by (rule to_remove_nth)
    finally have rem: "mset (map ((!) t') (rev L)) = image_mset (fst \<circ> N) (filter_mset failed (mset t))"
      by simp
    have "mset t' = image_mset (fst \<circ> N) (filter_mset failed (mset t)) +
                   image_mset (fst \<circ> N) (filter_mset (\<lambda>s. \<not> failed s) (mset t))"
      unfolding t'_def by (simp flip: image_mset_union)
    with t''(2) rem have kept: "mset t'' = image_mset (fst \<circ> N) (filter_mset (\<lambda>s. \<not> failed s) (mset t))"
      by simp
    from False have "filter_mset (\<lambda>s. \<not> failed s) (mset t) \<noteq> {#}"
      by (auto simp: filter_mset_eq_conv)
    with kept have "t'' \<noteq> []" by auto
    with False ne chk t''(1) kept lenL lent' show ?thesis
      by (auto simp: handle_trace_def failed_def)
  qed
qed

lemma handle_trace_total:
  "\<exists>c' kept. handle_trace N t (c, ch) = Inr (c', ch @ kept) \<and>
     stotal c' - stotal c = int (sum_list (map length kept)) + (sdropped c' - sdropped c)"
proof (cases "\<forall>s \<in> set t. \<forall>s' \<in> set t. TraceID s = TraceID s'")
  case same: True
  show ?thesis
  proof (cases "\<forall>s \<in> set t. snd (N s) \<noteq> None")
    case True
    with handle_trace_same [OF same, of N c ch]
    have "handle_trace N t (c, ch) =
        Inr (c\<lparr>stotal := stotal c + int (length t),
               sdropped := sdropped c + int (length t),
               tdropped := tdropped c + 1\<rparr>, ch @ [])"
      by simp
    moreover have "stotal (c\<lparr>stotal := stotal c + int (length t),
               sdropped := sdropped c + int (length t),
               tdropped := tdropped c + 1\<rparr>) - stotal c =
        int (sum_list (map length ([] :: Trace list))) +
        (sdropped (c\<lparr>stotal := stotal c + int (length t),
               sdropped := sdropped c + int (length t),
               tdropped := tdropped c + 1\<rparr>) - sdropped c)"
      by simp
    ultimately show ?thesis by blast
  next
    case False
    with handle_trace_same [OF same, of N c ch]
    obtain t'' where t'': "handle_trace N t (c, ch) =
        Inr (c\<lparr>stotal := stotal c + int (length t),
               sdropped := sdropped c + int (length (filter (\<lambda>s. snd (N s) \<noteq> None) t)),
               ttotal := ttotal c + 1\<rparr>, ch @ [t''])"
      "mset t'' = image_mset (fst \<circ> N) (filter_mset (\<lambda>s. snd (N s) = None) (mset t))"
      by (simp only: if_False) blast
    have "size (mset t'') = size (filter_mset (\<lambda>s. snd (N s) = None) (mset t))"
      by (simp only: t''(2) size_image_mset)
    then have "length t'' = length (filter (\<lambda>s. \<not> snd (N s) \<noteq> None) t)"
      by (simp flip: mset_filter)
    moreover have "length (filter (\<lambda>s. snd (N s) \<noteq> None) t) +
        length (filter (\<lambda>s. \<not> snd (N s) \<noteq> None) t) = length t"
      by (rule sum_length_filter_compl)
    ultimately have "int (length t) = int (length t'') + int (length (filter (\<lambda>s. snd (N s) \<noteq> None) t))"
      by linarith
    then have "stotal (c\<lparr>stotal := stotal c + int (length t),
               sdropped := sdropped c + int (length (filter (\<lambda>s. snd (N s) \<noteq> None) t)),
               ttotal := ttotal c + 1\<rparr>) - stotal c =
        int (sum_list (map length [t''])) +
        (sdropped (c\<lparr>stotal := stotal c + int (length t),
               sdropped := sdropped c + int (length (filter (\<lambda>s. snd (N s) \<noteq> None) t)),
               ttotal := ttotal c + 1\<rparr>) - sdropped c)"
      by simp
    with t''(1) show ?thesis by blast
  qed
next
  case False
  then have "\<exists>s \<in> set t. \<exists>s' \<in> set t. TraceID s \<noteq> TraceID s'" by blast
  from handle_trace_mismatch [OF this, of N c ch]
  have "handle_trace N t (c, ch) =
        Inr (c\<lparr>stotal := stotal c + int (length t),
               sdropped := sdropped c + int (length t),
               tdropped := tdropped c + 1\<rparr>, ch @ [])"
    by simp
  moreover have "stotal (c\<lparr>stotal := stotal c + int (length t),
               sdropped := sdropped c + int (length t),
               tdropped := tdropped c + 1\<rparr>) - stotal c =
        int (sum_list (map length ([] :: Trace list))) +
        (sdropped (c\<lparr>stotal := stotal c + int (length t),
               sdropped := sdropped c + int (length t),
               tdropped := tdropped c + 1\<rparr>) - sdropped c)"
    by simp
  ultimately show ?thesis by blast
qed

subsection \<open>The loop over the traces\<close>

lemma traces_loop_total:
  "\<exists>c' kept. traces_loop N ts (c, ch) = Inr (c', ch @ kept) \<and>
     stotal c' - stotal c = int (sum_list (map length kept)) + (sdropped c' - sdropped c)"
proof (induction ts arbitrary: c ch)
  case Nil
  have "traces_loop N [] (c, ch) = Inr (c, ch @ [])" by simp
  moreover have "stotal c - stotal c =
      int (sum_list (map length ([] :: Trace list))) + (sdropped c - sdropped c)"
    by simp
  ultimately show ?case by blast
next
  case (Cons t ts)
  from handle_trace_total [of N t c ch]
  obtain c1 k1 where 1: "handle_trace N t (c, ch) = Inr (c1, ch @ k1)"
    "stotal c1 - stotal c = int (sum_list (map length k1)) + (sdropped c1 - sdropped c)"
    by blast
  from Cons.IH [of c1 "ch @ k1"]
  obtain c2 k2 where 2: "traces_loop N ts (c1, ch @ k1) = Inr (c2, (ch @ k1) @ k2)"
    "stotal c2 - stotal c1 = int (sum_list (map length k2)) + (sdropped c2 - sdropped c1)"
    by blast
  have "traces_loop N (t # ts) (c, ch) = Inr (c2, ch @ (k1 @ k2))"
    using 1(1) 2(1) by simp
  moreover have "stotal c2 - stotal c = int (sum_list (map length (k1 @ k2))) + (sdropped c2 - sdropped c)"
    using 1(2) 2(2) by simp
  ultimately show ?case by blast
qed

lemma traces_loop_append:
  "traces_loop N (pre @ t # post) st =
     (case traces_loop N pre st of
        Inl p \<Rightarrow> Inl p
      | Inr st1 \<Rightarrow>
          (case handle_trace N t st1 of
             Inl p \<Rightarrow> Inl p
           | Inr st2 \<Rightarrow> traces_loop N post st2))"
  by (induction pre arbitrary: st) (simp_all split: sum.splits)

subsection \<open>The handler\<close>

lemma HTTPOK_new_writer: "HTTPOK new_writer = \<lparr>status = Some 200, written = ''OK\<newline>''\<rparr>"
  by (simp add: HTTPOK_def Write_def WriteHeader_def new_writer_def)

text \<open>
  Without a body, or when the body cannot be read, the handler returns before the
  \<^verbatim>\<open>switch\<close>: it writes no response and leaves the receiver as it was.
\<close>

lemma handleTraces_unread_body:
  "Body r = None \<or> Body r = Some ReadError \<Longrightarrow> handleTraces lib order v w r l = Inr (w, l)"
  by (auto simp: handleTraces_def)

lemma decode_traces_nonempty:
  assumes "decode_traces lib order v ct body w = Inr (w', ts)" and "ts \<noteq> []"
  shows "w' = w"
  using assms by (auto simp: decode_traces_def split: if_splits option.splits)

lemma handleTraces_decompose:
  assumes "Body r = Some (ReadAll body)"
    and "decode_traces lib order v (ContentType r) body new_writer = Inr (w', pre @ t # post)"
    and "traces_loop (Normalize lib) pre (zero_tally, traces l) = Inr st1"
    and "handle_trace (Normalize lib) t st1 = Inr st2"
    and "traces_loop (Normalize lib) post st2 = Inr (c', ch')"
  shows "handleTraces lib order v new_writer r l =
           Inr (\<lparr>status = Some 200, written = ''OK\<newline>''\<rparr>,
                l\<lparr>traces := ch', stats := add_stats c' (stats l)\<rparr>)"
proof -
  have "w' = new_writer"
    using assms(2) by (rule decode_traces_nonempty) simp
  moreover have "traces_loop (Normalize lib) (pre @ t # post) (zero_tally, traces l) = Inr (c', ch')"
    using assms(3-5) by (simp add: traces_loop_append)
  ultimately show ?thesis
    using assms(1,2) by (simp add: handleTraces_def HTTPOK_new_writer)
qed

lemma handleTraces_total:
  "\<exists>w' c kept. handleTraces lib order v w r l =
       Inr (w', l\<lparr>traces := traces l @ kept, stats := add_stats c (stats l)\<rparr>) \<and>
     stotal c = int (sum_list (map length kept)) + sdropped c"
proof -
  have early: ?thesis if "handleTraces lib order v w r l = Inr (w0, l)" for w0
  proof -
    have "l = l\<lparr>traces := traces l @ [], stats := add_stats zero_tally (stats l)\<rparr>"
      by (simp add: add_stats_def zero_tally_def)
    with that have "handleTraces lib order v w r l =
        Inr (w0, l\<lparr>traces := traces l @ [], stats := add_stats zero_tally (stats l)\<rparr>)"
      by simp
    moreover have "stotal zero_tally = int (sum_list (map length ([] :: Trace list))) + sdropped zero_tally"
      by (simp add: zero_tally_def)
    ultimately show ?thesis by blast
  qed
  show ?thesis
  proof (cases "Body r")
    case None
    then show ?thesis by (intro early [of w]) (simp add: handleTraces_def)
  next
    case (Some rr)
    show ?thesis
    proof (cases rr)
      case ReadError
      with Some show ?thesis by (intro early [of w]) (simp add: handleTraces_def)
    next
      case (ReadAll bodyBytes)
      show ?thesis
      proof (cases "decode_traces lib order v (ContentType r) bodyBytes w")
        case (Inl w0)
        with Some ReadAll show ?thesis by (intro early [of w0]) (simp add: handleTraces_def)
      next
        case (Inr a)
        then obtain w0 ts where d: "decode_traces lib order v (ContentType r) bodyBytes w = Inr (w0, ts)"
          by (cases a) simp
        from traces_loop_total [of "Normalize lib" ts zero_tally "traces l"]
        obtain c kept where k: "traces_loop (Normalize lib) ts (zero_tally, traces l) = Inr (c, traces l @ kept)"
          "stotal c - stotal zero_tally = int (sum_list (map length kept)) + (sdropped c - sdropped zero_tally)"
          by blast
        have "handleTraces lib order v w r l =
            Inr (HTTPOK w0, l\<lparr>traces := traces l @ kept, stats := add_stats c (stats l)\<rparr>)"
          using Some ReadAll d k(1) by (simp add: handleTraces_def)
        moreover have "stotal c = int (sum_list (map length kept)) + sdropped c"
          using k(2) by (simp add: zero_tally_def)
        ultimately show ?thesis by blast
      qed
    qed
  qed
qed

lemma decode_traces_json:
  assumes "v = v01 \<or> v = v02"
    and "ct = [] \<or> ct = ''text/json'' \<or> ct = ''application/json''"
  shows "decode_traces lib order v ct b w =
           (if v = v01
            then (case JSONSpans lib b of
                    None \<Rightarrow> Inl (HTTPErrorAndLog w 500 ''decoding-error'')
                  | Some spans \<Rightarrow> Inr (w, range_byID order (byID spans)))
            else (case JSONTraces lib b of
                    None \<Rightarrow> Inl (HTTPErrorAndLog w 500 ''decoding-error'')
                  | Some ts \<Rightarrow> Inr (w, ts)))"
  using assms by (auto simp: decode_traces_def v01_def v02_def)

lemma status_HTTPErrorAndLog_new: "status (HTTPErrorAndLog new_writer code msg) = Some code"
  by (simp add: HTTPErrorAndLog_def Write_def WriteHeader_def new_writer_def)

lemma handleTraces_json_status:
  assumes "v = v01 \<or> v = v02"
    and "ContentType r = [] \<or> ContentType r = ''text/json'' \<or> ContentType r = ''application/json''"
    and "handleTraces lib order v new_writer r l = Inr (w', l')"
  shows "status w' = None \<or> status w' = Some 500 \<or> status w' = Some 200"
proof (cases "Body r")
  case None
  with assms(3) show ?thesis by (auto simp: handleTraces_def new_writer_def)
next
  case (Some rr)
  show ?thesis
  proof (cases rr)
    case ReadError
    with Some assms(3) show ?thesis by (auto simp: handleTraces_def new_writer_def)
  next
    case (ReadAll b)
    note d = decode_traces_json [OF assms(1,2), of lib order b new_writer]
    show ?thesis
    proof (cases "decode_traces lib order v (ContentType r) b new_writer")
      case (Inl w0)
      with d have "w0 = HTTPErrorAndLog new_writer 500 ''decoding-error''"
        by (auto split: if_splits option.splits)
      moreover from Inl Some ReadAll assms(3) have "w' = w0" by (simp add: handleTraces_def)
      ultimately show ?thesis by (simp add: status_HTTPErrorAndLog_new)
    next
      case (Inr a)
      then obtain w0 ts where a: "a = (w0, ts)" by (cases a)
      with Inr d have "w0 = new_writer" by (auto split: if_splits option.splits)
      moreover from Inr a Some ReadAll assms(3) have "w' = HTTPOK w0"
        by (auto simp: handleTraces_def Let_def split: sum.splits)
      ultimately show ?thesis by (simp add: HTTPOK_new_writer)
    qed
  qed
qed

subsection \<open>Trace ID mismatch\<close>

text \<open>
  Claim C3. A request whose body decodes and which holds a trace \<open>t\<close> whose spans do not
  all share one trace ID (\<open>pre\<close> and \<open>post\<close> are the traces before and after it) is
  answered with status 200 and the body \<^verbatim>\<open>"OK\n"\<close>. When the loop reaches \<open>t\<close>, with
  counters \<open>c\<close> and sent traces \<open>ch\<close>, it adds 1 to \<^verbatim>\<open>tdropped\<close> and the number of spans of
  \<open>t\<close> to \<^verbatim>\<open>sdropped\<close> (and to \<^verbatim>\<open>stotal\<close>), sends nothing on the channel and goes on with
  the traces after \<open>t\<close>; the handler ends by adding the counters to those of the receiver.
\<close>

theorem mismatched_trace_dropped:
  assumes "Body r = Some (ReadAll body)"
    and "decode_traces lib order v (ContentType r) body new_writer = Inr (w', pre @ t # post)"
    and "\<exists>s \<in> set t. \<exists>s' \<in> set t. TraceID s \<noteq> TraceID s'"
  shows "\<exists>c ch c' ch'.
           traces_loop (Normalize lib) pre (zero_tally, traces l) = Inr (c, ch) \<and>
           traces_loop (Normalize lib) post
             (c\<lparr>stotal := stotal c + int (length t),
                sdropped := sdropped c + int (length t),
                tdropped := tdropped c + 1\<rparr>, ch) = Inr (c', ch') \<and>
           handleTraces lib order v new_writer r l =
             Inr (\<lparr>status = Some 200, written = ''OK\<newline>''\<rparr>,
                  l\<lparr>traces := ch', stats := add_stats c' (stats l)\<rparr>)"
proof -
  obtain c ch where 1: "traces_loop (Normalize lib) pre (zero_tally, traces l) = Inr (c, ch)"
    using traces_loop_total [of "Normalize lib" pre zero_tally "traces l"] by blast
  let ?c = "c\<lparr>stotal := stotal c + int (length t),
                sdropped := sdropped c + int (length t),
                tdropped := tdropped c + 1\<rparr>"
  have 2: "handle_trace (Normalize lib) t (c, ch) = Inr (?c, ch)"
    by (rule handle_trace_mismatch [OF assms(3)])
  obtain c' ch' where 3: "traces_loop (Normalize lib) post (?c, ch) = Inr (c', ch')"
    using traces_loop_total [of "Normalize lib" post ?c ch] by blast
  from handleTraces_decompose [OF assms(1,2) 1 2 3] 1 3 show ?thesis by blast
qed

text \<open>
  Scenario C of the spec: one trace with the trace IDs 7, 7, 8 on \<^verbatim>\<open>/v0.2/traces\<close>.
\<close>

theorem mismatched_trace_dropped_witness:
  "Body \<lparr>Body = Some (ReadAll ''[[...]]''), ContentType = ''application/json''\<rparr>
     = Some (ReadAll ''[[...]]'') \<and>
   decode_traces (example_library [[mk_span 7 1 40 2, mk_span 7 2 40 1, mk_span 8 3 41 1]]) [] v02
       (ContentType \<lparr>Body = Some (ReadAll ''[[...]]''), ContentType = ''application/json''\<rparr>)
       ''[[...]]'' new_writer
     = Inr (new_writer, [] @ [mk_span 7 1 40 2, mk_span 7 2 40 1, mk_span 8 3 41 1] # []) \<and>
   (\<exists>s \<in> set [mk_span 7 1 40 2, mk_span 7 2 40 1, mk_span 8 3 41 1].
      \<exists>s' \<in> set [mk_span 7 1 40 2, mk_span 7 2 40 1, mk_span 8 3 41 1]. TraceID s \<noteq> TraceID s') \<and>
   handleTraces (example_library [[mk_span 7 1 40 2, mk_span 7 2 40 1, mk_span 8 3 41 1]]) [] v02
       new_writer \<lparr>Body = Some (ReadAll ''[[...]]''), ContentType = ''application/json''\<rparr>
       NewHTTPReceiver
     = Inr (\<lparr>status = Some 200, written = ''OK\<newline>''\<rparr>,
            \<lparr>traces = [],
             stats = \<lparr>Errors = 0, SpansReceived = 3, TracesReceived = 0, SpansDropped = 3,
                      TracesDropped = 1\<rparr>\<rparr>)"
proof -
  have d: "decode_traces (example_library [[mk_span 7 1 40 2, mk_span 7 2 40 1, mk_span 8 3 41 1]]) [] v02
       (ContentType \<lparr>Body = Some (ReadAll ''[[...]]''), ContentType = ''application/json''\<rparr>)
       ''[[...]]'' new_writer
     = Inr (new_writer, [] @ [mk_span 7 1 40 2, mk_span 7 2 40 1, mk_span 8 3 41 1] # [])"
    by (simp add: decode_traces_def example_library_def v01_def v02_def)
  have m: "\<exists>s \<in> set [mk_span 7 1 40 2, mk_span 7 2 40 1, mk_span 8 3 41 1].
      \<exists>s' \<in> set [mk_span 7 1 40 2, mk_span 7 2 40 1, mk_span 8 3 41 1]. TraceID s \<noteq> TraceID s'"
    by (rule bexI [of _ "mk_span 7 1 40 2"], rule bexI [of _ "mk_span 8 3 41 1"])
      (simp_all add: mk_span_def)
  from mismatched_trace_dropped [OF _ d m, of NewHTTPReceiver] d m show ?thesis
    by (simp add: NewHTTPReceiver_def zero_tally_def add_stats_def)
qed

subsection \<open>Spans that fail to normalize\<close>

text \<open>
  Claim C4. For a decoded trace \<open>t\<close> whose spans all share one trace ID, reached by the
  loop with counters \<open>c\<close> and sent traces \<open>ch\<close>: when \<^verbatim>\<open>Normalize\<close> fails on every span
  (also when \<open>t\<close> is empty) the trace is dropped, \<^verbatim>\<open>tdropped\<close> grows by 1 and nothing is
  sent; otherwise one trace \<open>t''\<close> is sent on the channel, and as a multiset it holds
  exactly the normalized spans of \<open>t\<close> on which \<^verbatim>\<open>Normalize\<close> returned no error; \<^verbatim>\<open>sdropped\<close>
  grows by the number of spans that failed and \<^verbatim>\<open>ttotal\<close> by 1.
\<close>

theorem same_id_trace_normalized:
  assumes "Body r = Some (ReadAll body)"
    and "decode_traces lib order v (ContentType r) body new_writer = Inr (w', pre @ t # post)"
    and "\<forall>s \<in> set t. \<forall>s' \<in> set t. TraceID s = TraceID s'"
  shows "\<exists>c ch c' ch'.
           traces_loop (Normalize lib) pre (zero_tally, traces l) = Inr (c, ch) \<and>
           handleTraces lib order v new_writer r l =
             Inr (\<lparr>status = Some 200, written = ''OK\<newline>''\<rparr>,
                  l\<lparr>traces := ch', stats := add_stats c' (stats l)\<rparr>) \<and>
           (if \<forall>s \<in> set t. snd (Normalize lib s) \<noteq> None
            then traces_loop (Normalize lib) post
                   (c\<lparr>stotal := stotal c + int (length t),
                      sdropped := sdropped c + int (length t),
                      tdropped := tdropped c + 1\<rparr>, ch) = Inr (c', ch')
            else \<exists>t''. mset t'' =
                         image_mset (fst \<circ> Normalize lib)
                           (filter_mset (\<lambda>s. snd (Normalize lib s) = None) (mset t)) \<and>
                       traces_loop (Normalize lib) post
                         (c\<lparr>stotal := stotal c + int (length t),
                            sdropped := sdropped c +
                              int (length (filter (\<lambda>s. snd (Normalize lib s) \<noteq> None) t)),
                            ttotal := ttotal c + 1\<rparr>, ch @ [t'']) = Inr (c', ch'))"
proof -
  let ?N = "Normalize lib"
  obtain c ch where 1: "traces_loop ?N pre (zero_tally, traces l) = Inr (c, ch)"
    using traces_loop_total [of ?N pre zero_tally "traces l"] by blast
  show ?thesis
  proof (cases "\<forall>s \<in> set t. snd (?N s) \<noteq> None")
    case True
    let ?c = "c\<lparr>stotal := stotal c + int (length t),
                  sdropped := sdropped c + int (length t),
                  tdropped := tdropped c + 1\<rparr>"
    have 2: "handle_trace ?N t (c, ch) = Inr (?c, ch)"
      using handle_trace_same [OF assms(3), of ?N c ch] by (simp only: if_P [OF True])
    obtain c' ch' where 3: "traces_loop ?N post (?c, ch) = Inr (c', ch')"
      using traces_loop_total [of ?N post ?c ch] by blast
    have H: "handleTraces lib order v new_writer r l =
        Inr (\<lparr>status = Some 200, written = ''OK\<newline>''\<rparr>,
             l\<lparr>traces := ch', stats := add_stats c' (stats l)\<rparr>)"
      by (rule handleTraces_decompose [OF assms(1,2) 1 2 3])
    show ?thesis
      apply (rule exI [of _ c], rule exI [of _ ch], rule exI [of _ c'], rule exI [of _ ch'])
      apply (simp only: if_P [OF True] 1 H 3 simp_thms)
      done
  next
    case False
    let ?c = "c\<lparr>stotal := stotal c + int (length t),
                  sdropped := sdropped c + int (length (filter (\<lambda>s. snd (?N s) \<noteq> None) t)),
                  ttotal := ttotal c + 1\<rparr>"
    obtain t'' where 2: "handle_trace ?N t (c, ch) = Inr (?c, ch @ [t''])"
      and m: "mset t'' = image_mset (fst \<circ> ?N) (filter_mset (\<lambda>s. snd (?N s) = None) (mset t))"
      using handle_trace_same [OF assms(3), of ?N c ch] by (simp only: if_not_P [OF False]) (erule exE, erule conjE)
    obtain c' ch' where 3: "traces_loop ?N post (?c, ch @ [t'']) = Inr (c', ch')"
      using traces_loop_total [of ?N post ?c "ch @ [t'']"] by blast
    have H: "handleTraces lib order v new_writer r l =
        Inr (\<lparr>status = Some 200, written = ''OK\<newline>''\<rparr>,
             l\<lparr>traces := ch', stats := add_stats c' (stats l)\<rparr>)"
      by (rule handleTraces_decompose [OF assms(1,2) 1 2 3])
    have E: "\<exists>t''. mset t'' =
                         image_mset (fst \<circ> Normalize lib)
                           (filter_mset (\<lambda>s. snd (Normalize lib s) = None) (mset t)) \<and>
                       traces_loop (Normalize lib) post
                         (c\<lparr>stotal := stotal c + int (length t),
                            sdropped := sdropped c +
                              int (length (filter (\<lambda>s. snd (Normalize lib s) \<noteq> None) t)),
                            ttotal := ttotal c + 1\<rparr>, ch @ [t'']) = Inr (c', ch')"
      using m 3 by (intro exI [of _ t''] conjI)
    show ?thesis
      apply (rule exI [of _ c], rule exI [of _ ch], rule exI [of _ c'], rule exI [of _ ch'])
      apply (simp only: if_not_P [OF False] 1 H E simp_thms)
      done
  qed
qed

text \<open>
  Three spans of trace 7, the first with a span ID of zero: it is removed by moving the
  last span into its place.
\<close>

theorem same_id_trace_normalized_witness:
  "Body \<lparr>Body = Some (ReadAll ''[[...]]''), ContentType = ''application/json''\<rparr>
     = Some (ReadAll ''[[...]]'') \<and>
   decode_traces (example_library [[mk_span 7 0 40 2, mk_span 7 2 40 1, mk_span 7 3 41 1]]) [] v02
       (ContentType \<lparr>Body = Some (ReadAll ''[[...]]''), ContentType = ''application/json''\<rparr>)
       ''[[...]]'' new_writer
     = Inr (new_writer, [] @ [mk_span 7 0 40 2, mk_span 7 2 40 1, mk_span 7 3 41 1] # []) \<and>
   map TraceID [mk_span 7 0 40 2, mk_span 7 2 40 1, mk_span 7 3 41 1] = [7, 7, 7] \<and>
   handleTraces (example_library [[mk_span 7 0 40 2, mk_span 7 2 40 1, mk_span 7 3 41 1]]) [] v02
       new_writer \<lparr>Body = Some (ReadAll ''[[...]]''), ContentType = ''application/json''\<rparr>
       NewHTTPReceiver
     = Inr (\<lparr>status = Some 200, written = ''OK\<newline>''\<rparr>,
            \<lparr>traces = [[mk_span 7 3 41 1, mk_span 7 2 40 1]],
             stats = \<lparr>Errors = 0, SpansReceived = 3, TracesReceived = 1, SpansDropped = 1,
                      TracesDropped = 0\<rparr>\<rparr>)"
proof -
  have d: "decode_traces (example_library [[mk_span 7 0 40 2, mk_span 7 2 40 1, mk_span 7 3 41 1]]) [] v02
       (ContentType \<lparr>Body = Some (ReadAll ''[[...]]''), ContentType = ''application/json''\<rparr>)
       ''[[...]]'' new_writer
     = Inr (new_writer, [] @ [mk_span 7 0 40 2, mk_span 7 2 40 1, mk_span 7 3 41 1] # [])"
    by (simp add: decode_traces_def example_library_def v01_def v02_def)
  have m: "\<forall>s \<in> set [mk_span 7 0 40 2, mk_span 7 2 40 1, mk_span 7 3 41 1].
      \<forall>s' \<in> set [mk_span 7 0 40 2, mk_span 7 2 40 1, mk_span 7 3 41 1]. TraceID s = TraceID s'"
    by (simp add: mk_span_def)
  have b: "Body \<lparr>Body = Some (ReadAll ''[[...]]''), ContentType = ''application/json''\<rparr>
     = Some (ReadAll ''[[...]]'')"
    by simp
  have c: "check_spans reject_zero_id 0 0 [mk_span 7 0 40 2, mk_span 7 2 40 1, mk_span 7 3 41 1] [] []
     = Some ([0], [mk_span 7 0 40 2, mk_span 7 2 40 1, mk_span 7 3 41 1])"
    by (simp add: reject_zero_id_def mk_span_def)
  have t: "handle_trace reject_zero_id [mk_span 7 0 40 2, mk_span 7 2 40 1, mk_span 7 3 41 1]
       (zero_tally, [])
     = Inr (\<lparr>stotal = 3, sdropped = 1, ttotal = 1, tdropped = 0\<rparr>,
            [[mk_span 7 3 41 1, mk_span 7 2 40 1]])"
    by (simp add: handle_trace_def c zero_tally_def del: check_spans.simps)
  have h: "handleTraces (example_library [[mk_span 7 0 40 2, mk_span 7 2 40 1, mk_span 7 3 41 1]]) [] v02
       new_writer \<lparr>Body = Some (ReadAll ''[[...]]''), ContentType = ''application/json''\<rparr>
       NewHTTPReceiver
     = Inr (\<lparr>status = Some 200, written = ''OK\<newline>''\<rparr>,
            \<lparr>traces = [[mk_span 7 3 41 1, mk_span 7 2 40 1]],
             stats = \<lparr>Errors = 0, SpansReceived = 3, TracesReceived = 1, SpansDropped = 1,
                      TracesDropped = 0\<rparr>\<rparr>)"
    by (simp add: handleTraces_def decode_traces_def v01_def v02_def example_library_def t
        HTTPOK_new_writer NewHTTPReceiver_def add_stats_def)
  have i: "map TraceID [mk_span 7 0 40 2, mk_span 7 2 40 1, mk_span 7 3 41 1] = [7, 7, 7]"
    by (simp add: mk_span_def)
  from same_id_trace_normalized [OF b d m, of NewHTTPReceiver] b d i h show ?thesis
    by blast
qed

subsection \<open>The debug panic\<close>

text \<open>
  Claim C5. The debug panic cannot be reached. The indices the span loop collects for a
  trace are strictly increasing and all below the length of the trace, so the removal
  loop, which visits them last index first, finds every index at most \<^verbatim>\<open>len(t)-1\<close> and
  returns a trace; the loop body returns for every trace and every state, and the
  handler returns for every request without a panic.
\<close>

theorem debug_panic_unreachable:
  "(\<forall>toRemove t'. check_spans (Normalize lib) 0 0 t [] [] = Some (toRemove, t') \<longrightarrow>
      sorted_wrt (<) toRemove \<and> (\<forall>idx \<in> set toRemove. idx < length t') \<and>
      (\<exists>t''. remove_spans (rev toRemove) t' = Inr t'')) \<and>
   (\<exists>st'. handle_trace (Normalize lib) t (c, ch) = Inr st') \<and>
   (\<exists>res. handleTraces lib order v w r l = Inr res)"
proof (intro conjI allI impI)
  fix toRemove t'
  assume chk: "check_spans (Normalize lib) 0 0 t [] [] = Some (toRemove, t')"
  note eqs = check_spans_Some_same [OF chk]
  show srt: "sorted_wrt (<) toRemove"
    unfolding eqs using to_remove_sorted [of _ 0 t] by simp
  show bnd: "\<forall>idx \<in> set toRemove. idx < length t'"
    unfolding eqs using to_remove_bound [of _ _ t] by auto
  from srt have "sorted_wrt (>) (rev toRemove)" by (simp add: sorted_wrt_rev)
  moreover from bnd have "\<forall>d \<in> set (rev toRemove). d < length t'" by simp
  ultimately show "\<exists>t''. remove_spans (rev toRemove) t' = Inr t''"
    using remove_spans_ok [of "rev toRemove" t'] by blast
next
  show "\<exists>st'. handle_trace (Normalize lib) t (c, ch) = Inr st'"
    using handle_trace_total [of "Normalize lib" t c ch] by blast
next
  show "\<exists>res. handleTraces lib order v w r l = Inr res"
    using handleTraces_total [of lib order v w r l] by blast
qed

text \<open>Three spans of which the first and the last are rejected.\<close>

theorem debug_panic_unreachable_witness:
  "check_spans (Normalize (example_library [])) 0 0
       [mk_span 7 0 40 2, mk_span 7 2 40 1, mk_span 7 0 41 1] [] []
     = Some ([0, 2], [mk_span 7 0 40 2, mk_span 7 2 40 1, mk_span 7 0 41 1]) \<and>
   sorted_wrt (<) [0, 2 :: nat] \<and>
   2 < length [mk_span 7 0 40 2, mk_span 7 2 40 1, mk_span 7 0 41 1] \<and>
   (\<exists>t''. remove_spans (rev [0, 2]) [mk_span 7 0 40 2, mk_span 7 2 40 1, mk_span 7 0 41 1] = Inr t'')"
proof -
  have c: "check_spans (Normalize (example_library [])) 0 0
       [mk_span 7 0 40 2, mk_span 7 2 40 1, mk_span 7 0 41 1] [] []
     = Some ([0, 2], [mk_span 7 0 40 2, mk_span 7 2 40 1, mk_span 7 0 41 1])"
    by (simp add: example_library_def reject_zero_id_def mk_span_def)
  from debug_panic_unreachable [of "example_library []"
      "[mk_span 7 0 40 2, mk_span 7 2 40 1, mk_span 7 0 41 1]" zero_tally "[]" "[]" v02 new_writer
      "\<lparr>Body = None, ContentType = []\<rparr>" NewHTTPReceiver]
  have "\<forall>toRemove t'. check_spans (Normalize (example_library [])) 0 0
          [mk_span 7 0 40 2, mk_span 7 2 40 1, mk_span 7 0 41 1] [] [] = Some (toRemove, t') \<longrightarrow>
      sorted_wrt (<) toRemove \<and> (\<forall>idx \<in> set toRemove. idx < length t') \<and>
      (\<exists>t''. remove_spans (rev toRemove) t' = Inr t'')"
    by (rule conjunct1)
  from this [rule_format, OF c] have r: "sorted_wrt (<) [0, 2 :: nat] \<and>
      (\<forall>idx \<in> set [0, 2]. idx < length [mk_span 7 0 40 2, mk_span 7 2 40 1, mk_span 7 0 41 1]) \<and>
      (\<exists>t''. remove_spans (rev [0, 2]) [mk_span 7 0 40 2, mk_span 7 2 40 1, mk_span 7 0 41 1] = Inr t'')" .
  then have "2 < length [mk_span 7 0 40 2, mk_span 7 2 40 1, mk_span 7 0 41 1]"
    by simp
  with c r show ?thesis by blast
qed

subsection \<open>The content type gate\<close>



text \<open>
  Claim C10. On a v0.1 or v0.2 traces endpoint a request with an empty \<^verbatim>\<open>Content-Type\<close>
  or with \<^verbatim>\<open>text/json\<close> is handled exactly as the same request with
  \<^verbatim>\<open>application/json\<close>: its body goes to the JSON decoder, and the response is never
  415.
\<close>

theorem empty_content_type_is_json:
  assumes "v = v01 \<or> v = v02"
    and "ContentType r = [] \<or> ContentType r = ''text/json''"
  shows "handleTraces lib order v w r l =
           handleTraces lib order v w (r\<lparr>ContentType := ''application/json''\<rparr>) l \<and>
         (\<forall>b. decode_traces lib order v (ContentType r) b w =
            (if v = v01
             then (case JSONSpans lib b of
                     None \<Rightarrow> Inl (HTTPErrorAndLog w 500 ''decoding-error'')
                   | Some spans \<Rightarrow> Inr (w, range_byID order (byID spans)))
             else (case JSONTraces lib b of
                     None \<Rightarrow> Inl (HTTPErrorAndLog w 500 ''decoding-error'')
                   | Some ts \<Rightarrow> Inr (w, ts)))) \<and>
         (\<forall>w' l'. handleTraces lib order v new_writer r l = Inr (w', l') \<longrightarrow>
            status w' \<noteq> Some 415)"
proof (intro conjI allI impI)
  have ct: "ContentType r = [] \<or> ContentType r = ''text/json'' \<or> ContentType r = ''application/json''"
    using assms(2) by blast
  have "decode_traces lib order v (ContentType r) b w =
        decode_traces lib order v ''application/json'' b w" for b
    by (simp only: decode_traces_json [OF assms(1) ct]
        decode_traces_json [OF assms(1), of "''application/json''"] simp_thms)
  then show "handleTraces lib order v w r l =
           handleTraces lib order v w (r\<lparr>ContentType := ''application/json''\<rparr>) l"
    by (simp add: handleTraces_def split: option.splits read_result.splits)
  show "decode_traces lib order v (ContentType r) b w =
            (if v = v01
             then (case JSONSpans lib b of
                     None \<Rightarrow> Inl (HTTPErrorAndLog w 500 ''decoding-error'')
                   | Some spans \<Rightarrow> Inr (w, range_byID order (byID spans)))
             else (case JSONTraces lib b of
                     None \<Rightarrow> Inl (HTTPErrorAndLog w 500 ''decoding-error'')
                   | Some ts \<Rightarrow> Inr (w, ts)))" for b
    by (rule decode_traces_json [OF assms(1) ct])
  show "status w' \<noteq> Some 415" if "handleTraces lib order v new_writer r l = Inr (w', l')" for w' l'
    using handleTraces_json_status [OF assms(1) ct that] by auto
qed

text \<open>An empty list of traces posted to \<^verbatim>\<open>/v0.2/traces\<close> without a content type.\<close>

theorem empty_content_type_is_json_witness:
  "(v02 = v01 \<or> v02 = v02) \<and>
   (ContentType \<lparr>Body = Some (ReadAll ''[]''), ContentType = []\<rparr> = [] \<or>
    ContentType \<lparr>Body = Some (ReadAll ''[]''), ContentType = []\<rparr> = ''text/json'') \<and>
   handleTraces (example_library []) [] v02 new_writer
       \<lparr>Body = Some (ReadAll ''[]''), ContentType = []\<rparr> NewHTTPReceiver
     = handleTraces (example_library []) [] v02 new_writer
         \<lparr>Body = Some (ReadAll ''[]''), ContentType = ''application/json''\<rparr> NewHTTPReceiver \<and>
   handleTraces (example_library []) [] v02 new_writer
       \<lparr>Body = Some (ReadAll ''[]''), ContentType = []\<rparr> NewHTTPReceiver
     = Inr (\<lparr>status = Some 200, written = ''OK\<newline>''\<rparr>, NewHTTPReceiver)"
proof -
  have h: "handleTraces (example_library []) [] v02 new_writer
       \<lparr>Body = Some (ReadAll ''[]''), ContentType = []\<rparr> NewHTTPReceiver
     = Inr (\<lparr>status = Some 200, written = ''OK\<newline>''\<rparr>, NewHTTPReceiver)"
    by (simp add: handleTraces_def decode_traces_def v01_def v02_def example_library_def
        HTTPOK_new_writer NewHTTPReceiver_def add_stats_def zero_tally_def)
  show ?thesis
    using empty_content_type_is_json [of v02 "\<lparr>Body = Some (ReadAll ''[]''), ContentType = []\<rparr>"
      "example_library []" "[]" new_writer NewHTTPReceiver] h
    by simp
qed

subsection \<open>The counters\<close>



section \<open>Properties of the agent\<close>

subsection \<open>Late traces\<close>

text \<open>A trace that is not late is handed to both aggregators, quantized.\<close>

lemma Process_dispatches:
  assumes "GetRoot m t < length t"
    and "\<not> End (PinSublayersOnSpan m (t ! GetRoot m t) (ComputeSublayers m t))
             <s now - OldestSpanCutoff conf"
  shows "\<exists>pt. Process m conf now t = [Go_Concentrator_Add pt, Go_Sampler_Add pt] \<and>
           Trace pt = map (Quantize m)
             (t[GetRoot m t := PinSublayersOnSpan m (t ! GetRoot m t) (ComputeSublayers m t)])"
  using assms by (auto simp: Process_def Let_def)

text \<open>
  Claim C8. For a non-empty trace whose root, as \<^verbatim>\<open>Process\<close> reads it, ends before
  \<open>now - OldestSpanCutoff\<close> (the subtraction and the signed comparison of the code),
  \<^verbatim>\<open>Process\<close> starts no goroutine: neither \<^verbatim>\<open>Concentrator.Add\<close> nor \<^verbatim>\<open>Sampler.Add\<close> is
  called.
\<close>

theorem late_trace_dropped:
  assumes "t \<noteq> []"
    and "GetRoot m t < length t"
    and "End (PinSublayersOnSpan m (t ! GetRoot m t) (ComputeSublayers m t))
           <s now - OldestSpanCutoff conf"
  shows "Process m conf now t = []"
  using assms by (simp add: Process_def Let_def)

text \<open>
  Scenario D of the spec: a span that ended 60 seconds ago with a cutoff of 30 seconds.
\<close>

theorem late_trace_dropped_witness:
  "[mk_span 424242 42 1448466874000000000 10000000] \<noteq> [] \<and>
   GetRoot \<lparr>ComputeSublayers = (\<lambda>t. None :: unit list option), GetRoot = (\<lambda>t. 0),
            PinSublayersOnSpan = (\<lambda>s sl. s), Quantize = (\<lambda>s. s), GetEnv = (\<lambda>t. ''none'')\<rparr>
       [mk_span 424242 42 1448466874000000000 10000000]
     < length [mk_span 424242 42 1448466874000000000 10000000] \<and>
   End (mk_span 424242 42 1448466874000000000 10000000)
     <s 1448466934010000000 - 30000000000 \<and>
   Process \<lparr>ComputeSublayers = (\<lambda>t. None :: unit list option), GetRoot = (\<lambda>t. 0),
            PinSublayersOnSpan = (\<lambda>s sl. s), Quantize = (\<lambda>s. s), GetEnv = (\<lambda>t. ''none'')\<rparr>
       \<lparr>HostName = ''host'', DefaultEnv = ''none'', ExtraAggregators = [],
        BucketInterval = 5000000000, OldestSpanCutoff = 30000000000\<rparr>
       1448466934010000000 [mk_span 424242 42 1448466874000000000 10000000] = []"
  using late_trace_dropped [of "[mk_span 424242 42 1448466874000000000 10000000]"
      "\<lparr>ComputeSublayers = (\<lambda>t. None :: unit list option), GetRoot = (\<lambda>t. 0),
            PinSublayersOnSpan = (\<lambda>s sl. s), Quantize = (\<lambda>s. s), GetEnv = (\<lambda>t. ''none'')\<rparr>"
      1448466934010000000
      "\<lparr>HostName = ''host'', DefaultEnv = ''none'', ExtraAggregators = [],
        BucketInterval = 5000000000, OldestSpanCutoff = 30000000000\<rparr>"]
  by (simp add: End_def mk_span_def)

subsection \<open>The flush tick\<close>

text \<open>
  When both goroutines run before the send, the payload holds what the two flushes
  return; when the send comes first it holds neither.
\<close>

lemma flush_tick_flush_first:
  "inPayloads (flush_tick SamplerFlush now order conf [GoStats, GoTraces, MainSend] st) =
     inPayloads st @
       [\<lparr>PayloadHostName = HostName conf, PayloadEnv = DefaultEnv conf,
         Stats = fst (Concentrator_Flush now order (concentrator st)),
         Traces = fst (SamplerFlush (sampler st))\<rparr>]"
  by (auto simp: flush_tick_def run_step_def split: prod.splits)

lemma send_first_payload_empty:
  "inPayloads (flush_tick SamplerFlush now order conf [MainSend, GoStats, GoTraces] st) =
     inPayloads st @
       [\<lparr>PayloadHostName = HostName conf, PayloadEnv = DefaultEnv conf, Stats = [], Traces = []\<rparr>]"
  by (simp add: flush_tick_def run_step_def split: prod.splits)

text \<open>
  Claim C9 does not hold of the code. When the main goroutine reaches its send before the
  two flushing goroutines have run, the payload sent has neither stats nor traces,
  whatever the flushes return afterwards. Here the concentrator holds the complete bucket
  10, which its flush returns and deletes, and the payload handed to the writer is
  empty.
\<close>

theorem flush_tick_send_first:
  "fst (Concentrator_Flush 25 [20, 10]
          \<lparr>aggregators = [], bsize = 10, buckets = [10 \<mapsto> ''a'', 20 \<mapsto> ''b'']\<rparr>) = [''a''] \<and>
   inPayloads (flush_tick (\<lambda>s. ([[mk_span 1 1 20 5]], s)) 25 [20, 10]
       \<lparr>HostName = ''host'', DefaultEnv = ''none'', ExtraAggregators = [],
        BucketInterval = 10, OldestSpanCutoff = 30\<rparr>
       [MainSend, GoStats, GoTraces]
       \<lparr>payload = \<lparr>PayloadHostName = [], PayloadEnv = [], Stats = [], Traces = []\<rparr>,
        concentrator = \<lparr>aggregators = [], bsize = 10, buckets = [10 \<mapsto> ''a'', 20 \<mapsto> ''b'']\<rparr>,
        sampler = (), inPayloads = []\<rparr>)
     = [\<lparr>PayloadHostName = ''host'', PayloadEnv = ''none'', Stats = [], Traces = []\<rparr>] \<and>
   buckets (concentrator (flush_tick (\<lambda>s. ([[mk_span 1 1 20 5]], s)) 25 [20, 10]
       \<lparr>HostName = ''host'', DefaultEnv = ''none'', ExtraAggregators = [],
        BucketInterval = 10, OldestSpanCutoff = 30\<rparr>
       [MainSend, GoStats, GoTraces]
       \<lparr>payload = \<lparr>PayloadHostName = [], PayloadEnv = [], Stats = [], Traces = []\<rparr>,
        concentrator = \<lparr>aggregators = [], bsize = 10, buckets = [10 \<mapsto> ''a'', 20 \<mapsto> ''b'']\<rparr>,
        sampler = (), inPayloads = []\<rparr>)) 10 = None"
  by (simp add: flush_tick_def run_step_def Concentrator_Flush_def)

end
